theory Spec2Isabelle
  imports Main
begin

section \<open>The side-by-side editor: data\<close>

text \<open>
  The development embeds \<^verbatim>\<open>vs/workbench/browser/parts/editor/sideBySideEditor.ts\<close>.
  The class \<^verbatim>\<open>SideBySideEditor\<close> hosts two child editors (details on the left, master
  on the right) separated by a sash. Child editors, editor inputs, editor options, editor
  descriptors and DOM elements are opaque to the class: it only stores references to them
  and calls their methods. A reference is an identity, written as a natural number.
\<close>

type_synonym EditorInput = nat
type_synonym EditorOptions = nat
type_synonym EditorDescriptor = nat
type_synonym BaseEditor = nat
type_synonym HTMLElement = nat
type_synonym Position = nat

subsection \<open>JavaScript numbers\<close>

text \<open>
  Widths, heights and offsets are JavaScript numbers: IEEE 754 binary64 values. Every
  finite double is an integer multiple of \<open>2\<^sup>-\<^sup>1\<^sup>0\<^sup>7\<^sup>4\<close>, so \<open>Finite k\<close> stands for
  \<open>k \<times> 2\<^sup>-\<^sup>1\<^sup>0\<^sup>7\<^sup>4\<close> (\<open>Finite 0\<close> is \<open>+0\<close>); \<open>NegZero\<close> is \<open>-0\<close>, \<open>Infinity True\<close> is
  \<open>-\<infinity>\<close>. The doubles among the \<open>Finite k\<close> are those with \<open>exact k\<close>: 53 significant
  bits at most, and below \<open>2\<^sup>1\<^sup>0\<^sup>2\<^sup>4\<close> in magnitude.
\<close>

datatype number = Finite int | NegZero | Infinity bool | NaN

function shift_for :: "nat \<Rightarrow> nat" where
  \<comment> \<open>how many low bits of \<open>a\<close> do not fit into 53 significant bits\<close>
  "shift_for a = (if a < 2 ^ 53 then 0 else Suc (shift_for (a div 2)))"
  by pat_completeness auto
termination
  by (relation "measure (\<lambda>a. a)") auto

definition round_nat :: "nat \<Rightarrow> nat" where
  \<comment> \<open>round to 53 significant bits, to nearest, ties to even\<close>
  "round_nat a =
     (let s = shift_for a; q = a div 2 ^ s; r = a mod 2 ^ s
      in if 2 ^ s < 2 * r \<or> (2 * r = 2 ^ s \<and> odd q) then (q + 1) * 2 ^ s else q * 2 ^ s)"

definition round_double :: "int \<Rightarrow> number" where
  \<comment> \<open>the double nearest to the non-zero \<open>k \<times> 2\<^sup>-\<^sup>1\<^sup>0\<^sup>7\<^sup>4\<close>; a rounded magnitude of \<open>2\<^sup>1\<^sup>0\<^sup>2\<^sup>4\<close>
      or more overflows to an infinity\<close>
  "round_double k =
     (let a = round_nat (nat \<bar>k\<bar>)
      in if 2 ^ 2098 \<le> a then Infinity (k < 0)
         else Finite (if k < 0 then - int a else int a))"

fun js_add :: "number \<Rightarrow> number \<Rightarrow> number" where
  \<comment> \<open>the operator \<^verbatim>\<open>+\<close> on numbers: the exact sum, rounded; an exact sum of zero is \<open>+0\<close>
      unless both operands are \<open>-0\<close>\<close>
  "js_add NaN y = NaN"
| "js_add x NaN = NaN"
| "js_add (Infinity s) (Infinity t) = (if s = t then Infinity s else NaN)"
| "js_add (Infinity s) y = Infinity s"
| "js_add x (Infinity t) = Infinity t"
| "js_add NegZero y = y"
| "js_add x NegZero = x"
| "js_add (Finite j) (Finite k) = (if j + k = 0 then Finite 0 else round_double (j + k))"

fun js_neg :: "number \<Rightarrow> number" where
  "js_neg (Finite k) = (if k = 0 then NegZero else Finite (- k))"
| "js_neg NegZero = Finite 0"
| "js_neg (Infinity s) = Infinity (\<not> s)"
| "js_neg NaN = NaN"

definition js_sub :: "number \<Rightarrow> number \<Rightarrow> number" where
  \<comment> \<open>the operator \<^verbatim>\<open>-\<close> on numbers: the sum with the negated operand\<close>
  "js_sub x y = js_add x (js_neg y)"


definition js_int :: "int \<Rightarrow> number" where
  \<comment> \<open>the double of an integer of magnitude below \<open>2\<^sup>5\<^sup>3\<close>\<close>
  "js_int n = Finite (n * 2 ^ 1074)"



subsection \<open>Inputs, dimensions, styles\<close>

record SideBySideEditorInput =
  master :: EditorInput
  details :: EditorInput

record Dimension =
  width :: number
  height :: number

text \<open>
  The inline style of a container element. The source writes the strings
  \<^verbatim>\<open>`${n}px`\<close> into it; the model keeps the number \<open>n\<close> of the string last assigned. A
  property never assigned is \<open>None\<close>.
\<close>

record style =
  style_position :: "string option"
  style_left :: "number option"
  style_width :: "number option"
  style_height :: "number option"

text \<open>
  Errors. \<open>NoHandler\<close> is the error of line 112 (no registered editor for the input);
  \<open>TypeError\<close> is what JavaScript throws on a property access through \<^verbatim>\<open>null\<close> or
  \<^verbatim>\<open>undefined\<close>; \<open>NotFoundError\<close> is what \<^verbatim>\<open>removeChild\<close> throws for a node that is not
  a child; \<open>External\<close> is an error produced by a collaborator (the instantiation service
  or a child's own \<^verbatim>\<open>setInput\<close>).
\<close>

datatype error = NoHandler EditorInput | TypeError | NotFoundError | External nat

text \<open>
  Every call the class makes on a collaborator is recorded, in order, in the host's
  \<open>calls\<close>: the methods of the child editors, the instantiation service, the sash, and the
  two DOM mutations of the parent element.
\<close>

datatype call =
    Dispose BaseEditor
  | SetVisible BaseEditor bool
  | Focus BaseEditor
  | Layout BaseEditor Dimension
  | Create BaseEditor "HTMLElement option"
  | ChildSetInput BaseEditor EditorInput "EditorOptions option"
  | CreateInstance EditorDescriptor
  | SashSetDimension Dimension
  | AppendChild HTMLElement
  | RemoveChild HTMLElement

text \<open>
  The fields of the class (lines 26 to 34), the fields it inherits from \<^verbatim>\<open>BaseEditor\<close>
  (\<open>input\<close>, \<open>options\<close>, \<open>visible\<close>, \<open>position\<close>), the sash position that
  \<^verbatim>\<open>getVerticalSashLeft\<close> reads, and the part of the DOM the class touches: the children
  of the parent element, the inline styles, and a supply of fresh elements for \<^verbatim>\<open>DOM.$\<close>.
  The record stands for an editor on which \<^verbatim>\<open>create\<close> has run, so the parent element and
  the sash exist.
\<close>

record SideBySideEditor =
  input :: "SideBySideEditorInput option"
  options :: "EditorOptions option"
  visible :: bool
  position :: "Position option"
  dimension :: "Dimension option"
  masterEditor :: "BaseEditor option"
  masterEditorContainer :: "HTMLElement option"
  detailsEditor :: "BaseEditor option"
  detailsEditorContainer :: "HTMLElement option"
  sashLeft :: number
  parentChildren :: "HTMLElement list"
  styles :: "HTMLElement \<Rightarrow> style"
  nextElement :: nat
  calls :: "call list"

text \<open>
  A method that may throw returns the exception, if any, with the state at the throw:
  the assignments made before a throw stay made.
\<close>

type_synonym outcome = "error option \<times> SideBySideEditor"

definition and_then :: "outcome \<Rightarrow> (SideBySideEditor \<Rightarrow> outcome) \<Rightarrow> outcome" where
  "and_then r f = (case r of (Some e, h) \<Rightarrow> (Some e, h) | (None, h) \<Rightarrow> f h)"

definition record_call :: "call \<Rightarrow> SideBySideEditor \<Rightarrow> SideBySideEditor" where
  "record_call c h = h\<lparr>calls := calls h @ [c]\<rparr>"

section \<open>Collaborators that are not part of the file\<close>

definition matches :: "SideBySideEditorInput \<Rightarrow> SideBySideEditorInput option \<Rightarrow> bool" where
  \<comment> \<open>Modelled from the spec: \<^verbatim>\<open>SideBySideEditorInput.matches\<close> lives in
      \<^verbatim>\<open>vs/workbench/common/editor\<close>. The spec makes it value equality of the pair of
      descriptors, never identity; no pair matches an absent input.\<close>
  "matches newInput oldInput =
     (case oldInput of
        None \<Rightarrow> False
      | Some old \<Rightarrow> details newInput = details old \<and> master newInput = master old)"

definition super_setInput ::
  "SideBySideEditorInput \<Rightarrow> EditorOptions option \<Rightarrow> SideBySideEditor \<Rightarrow> SideBySideEditor" where
  \<comment> \<open>Modelled from the spec: \<^verbatim>\<open>BaseEditor.setInput\<close> lives in \<^verbatim>\<open>baseEditor.ts\<close>. The host's
      current input is the pair last passed to \<^verbatim>\<open>setInput\<close>; the base method stores it
      with the options and returns a promise that is already fulfilled.\<close>
  "super_setInput newInput opts h = h\<lparr>input := Some newInput, options := opts\<rparr>"

definition super_clearInput :: "SideBySideEditor \<Rightarrow> SideBySideEditor" where
  \<comment> \<open>Modelled from the spec: \<^verbatim>\<open>BaseEditor.clearInput\<close> clears the current input.\<close>
  "super_clearInput h = h\<lparr>input := None, options := None\<rparr>"

definition super_setEditorVisible ::
  "bool \<Rightarrow> Position option \<Rightarrow> SideBySideEditor \<Rightarrow> SideBySideEditor" where
  \<comment> \<open>Modelled from the spec: \<^verbatim>\<open>BaseEditor.setEditorVisible\<close> stores the visibility (read
      back by \<^verbatim>\<open>isVisible\<close>) and the position.\<close>
  "super_setEditorVisible v p h = h\<lparr>visible := v, position := p\<rparr>"

definition removeChild :: "HTMLElement \<Rightarrow> SideBySideEditor \<Rightarrow> outcome" where
  \<comment> \<open>\<^verbatim>\<open>parentContainer.removeChild(c)\<close>: the DOM throws when \<open>c\<close> is not a child.\<close>
  "removeChild c h =
     (if c \<in> set (parentChildren h)
      then (None, record_call (RemoveChild c) (h\<lparr>parentChildren := remove1 c (parentChildren h)\<rparr>))
      else (Some NotFoundError, h))"

definition append_new :: "SideBySideEditor \<Rightarrow> HTMLElement \<times> SideBySideEditor" where
  \<comment> \<open>\<^verbatim>\<open>DOM.append(parentElement, DOM.$(...))\<close>: a fresh element becomes the last child of
      the parent and is returned.\<close>
  "append_new h =
     (let e = nextElement h
      in (e, record_call (AppendChild e)
               (h\<lparr>parentChildren := parentChildren h @ [e], nextElement := Suc e\<rparr>)))"

definition set_style :: "HTMLElement \<Rightarrow> (style \<Rightarrow> style) \<Rightarrow> SideBySideEditor \<Rightarrow> SideBySideEditor" where
  "set_style e f h = h\<lparr>styles := (styles h)(e := f (styles h e))\<rparr>"

section \<open>The synchronous methods\<close>

definition setEditorVisible :: "bool \<Rightarrow> Position option \<Rightarrow> SideBySideEditor \<Rightarrow> SideBySideEditor" where
  \<comment> \<open>lines 56 to 64\<close>
  "setEditorVisible v p h =
     (let h1 = (case masterEditor h of None \<Rightarrow> h | Some m \<Rightarrow> record_call (SetVisible m v) h);
          h2 = (case detailsEditor h1 of None \<Rightarrow> h1 | Some d \<Rightarrow> record_call (SetVisible d v) h1)
      in super_setEditorVisible v p h2)"

definition focus :: "SideBySideEditor \<Rightarrow> SideBySideEditor" where
  \<comment> \<open>lines 71 to 75\<close>
  "focus h = (case masterEditor h of None \<Rightarrow> h | Some m \<Rightarrow> record_call (Focus m) h)"

definition dolayout :: "number \<Rightarrow> SideBySideEditor \<Rightarrow> outcome" where
  \<comment> \<open>lines 142 to 159\<close>
  "dolayout splitPoint h =
     (case (detailsEditor h, masterEditor h) of
        (Some d, Some m) \<Rightarrow>
          (case dimension h of
             None \<Rightarrow> (Some TypeError, h)
           | Some dim \<Rightarrow>
               (let masterEditorWidth = js_sub (width dim) splitPoint;
                    detailsEditorWidth = js_sub (width dim) masterEditorWidth
                in case detailsEditorContainer h of
                     None \<Rightarrow> (Some TypeError, h)
                   | Some dc \<Rightarrow>
                       (let h1 = set_style dc (\<lambda>s. s\<lparr>style_width := Some detailsEditorWidth\<rparr>) h;
                            h2 = set_style dc (\<lambda>s. s\<lparr>style_height := Some (height dim)\<rparr>) h1;
                            h3 = set_style dc (\<lambda>s. s\<lparr>style_left := Some (Finite 0)\<rparr>) h2
                        in case masterEditorContainer h3 of
                             None \<Rightarrow> (Some TypeError, h3)
                           | Some mc \<Rightarrow>
                               (let h4 = set_style mc (\<lambda>s. s\<lparr>style_width := Some masterEditorWidth\<rparr>) h3;
                                    h5 = set_style mc (\<lambda>s. s\<lparr>style_height := Some (height dim)\<rparr>) h4;
                                    h6 = set_style mc (\<lambda>s. s\<lparr>style_left := Some splitPoint\<rparr>) h5;
                                    h7 = record_call
                                           (Layout d \<lparr>width = detailsEditorWidth, height = height dim\<rparr>) h6
                                in (None,
                                    record_call
                                      (Layout m \<lparr>width = masterEditorWidth, height = height dim\<rparr>) h7)))))
      | _ \<Rightarrow> (None, h))"

definition layout :: "Dimension \<Rightarrow> SideBySideEditor \<Rightarrow> SideBySideEditor" where
  \<comment> \<open>lines 77 to 80; what the sash does with the dimension is not part of the file\<close>
  "layout dim h = record_call (SashSetDimension dim) (h\<lparr>dimension := Some dim\<rparr>)"

definition disposeEditors :: "SideBySideEditor \<Rightarrow> outcome" where
  \<comment> \<open>lines 161 to 179; line 169 assigns \<^verbatim>\<open>this.detailsEditor\<close>, as the source does\<close>
  "disposeEditors h =
     (let h1 = (case detailsEditor h of
                  None \<Rightarrow> h
                | Some d \<Rightarrow> (record_call (Dispose d) h)\<lparr>detailsEditor := None\<rparr>);
          h2 = (case masterEditor h1 of
                  None \<Rightarrow> h1
                | Some m \<Rightarrow> (record_call (Dispose m) h1)\<lparr>detailsEditor := None\<rparr>)
      in and_then
           (case detailsEditorContainer h2 of
              None \<Rightarrow> (None, h2)
            | Some dc \<Rightarrow>
                and_then (removeChild dc h2) (\<lambda>h3. (None, h3\<lparr>detailsEditorContainer := None\<rparr>)))
           (\<lambda>h4. case masterEditorContainer h4 of
                    None \<Rightarrow> (None, h4)
                  | Some mc \<Rightarrow>
                      and_then (removeChild mc h4) (\<lambda>h5. (None, h5\<lparr>masterEditorContainer := None\<rparr>))))"

definition clearInput :: "SideBySideEditor \<Rightarrow> outcome" where
  \<comment> \<open>lines 66 to 69\<close>
  "clearInput h = and_then (disposeEditors h) (\<lambda>h1. (None, super_clearInput h1))"

definition createEditorContainers :: "SideBySideEditor \<Rightarrow> SideBySideEditor" where
  \<comment> \<open>lines 129 to 135\<close>
  "createEditorContainers h =
     (let (dc, h1) = append_new h;
          h2 = h1\<lparr>detailsEditorContainer := Some dc\<rparr>;
          h3 = set_style dc (\<lambda>s. s\<lparr>style_position := Some ''absolute''\<rparr>) h2;
          (mc, h4) = append_new h3;
          h5 = h4\<lparr>masterEditorContainer := Some mc\<rparr>
      in set_style mc (\<lambda>s. s\<lparr>style_position := Some ''absolute''\<rparr>) h5)"

definition onEditorsCreated :: "BaseEditor \<Rightarrow> BaseEditor \<Rightarrow> SideBySideEditor \<Rightarrow> outcome" where
  \<comment> \<open>lines 121 to 127\<close>
  "onEditorsCreated d m h =
     (let h1 = h\<lparr>detailsEditor := Some d\<rparr>;
          h2 = h1\<lparr>masterEditor := Some m\<rparr>;
          h3 = setEditorVisible (visible h2) (position h2) h2
      in and_then (dolayout (sashLeft h3) h3) (\<lambda>h4. (None, focus h4)))"

section \<open>Asynchronous child creation\<close>

text \<open>
  \<^verbatim>\<open>_createEditor\<close> (lines 109 to 119) returns a promise. Its progress is the state of
  one side: waiting for \<^verbatim>\<open>createInstance\<close> (with the arguments the callback of line 115
  has captured), waiting for the new editor's own \<^verbatim>\<open>setInput\<close>, or settled with an error
  or with the editor. The two suspension points complete in a later turn of the event
  loop, when the collaborator answers.
\<close>

datatype side =
    Instantiating EditorInput "HTMLElement option" "EditorOptions option"
  | Delivering BaseEditor
  | Settled "error + BaseEditor"

record creation =
  details_side :: side
  master_side :: side

text \<open>
  The promise \<^verbatim>\<open>setInput\<close> returns: still waiting for the two sides, fulfilled, or failed.
  A failure carries the errors of the sides that failed, details first (one error when a
  callback threw).
\<close>

datatype promise = Waiting creation | Fulfilled | Errored "error list"

datatype returned = Undefined | Promise promise | Thrown error

definition private_createEditor ::
  "(EditorInput \<Rightarrow> EditorDescriptor option) \<Rightarrow> EditorInput \<Rightarrow> HTMLElement option \<Rightarrow>
   EditorOptions option \<Rightarrow> SideBySideEditor \<Rightarrow> side \<times> SideBySideEditor" where
  \<comment> \<open>lines 110 to 114 of \<^verbatim>\<open>_createEditor\<close>, up to the call of \<^verbatim>\<open>createInstance\<close>; the
      registry's \<^verbatim>\<open>getEditor\<close> is a parameter\<close>
  "private_createEditor getEditor editorInput container opts h =
     (case getEditor editorInput of
        None \<Rightarrow> (Settled (Inl (NoHandler editorInput)), h)
      | Some descriptor \<Rightarrow>
          (Instantiating editorInput container opts, record_call (CreateInstance descriptor) h))"

definition instance_created :: "side \<Rightarrow> error + BaseEditor \<Rightarrow> SideBySideEditor \<Rightarrow> side \<times> SideBySideEditor" where
  \<comment> \<open>lines 115 to 117: \<^verbatim>\<open>createInstance\<close> has settled; on success the callback creates
      the editor in the captured container and calls its \<^verbatim>\<open>setInput\<close>\<close>
  "instance_created s r h =
     (case s of
        Instantiating editorInput container opts \<Rightarrow>
          (case r of
             Inl e \<Rightarrow> (Settled (Inl e), h)
           | Inr editor \<Rightarrow>
               (Delivering editor,
                record_call (ChildSetInput editor editorInput opts)
                  (record_call (Create editor container) h)))
      | _ \<Rightarrow> (s, h))"

definition input_delivered :: "side \<Rightarrow> error option \<Rightarrow> side" where
  \<comment> \<open>line 117: the editor's \<^verbatim>\<open>setInput\<close> has settled; \<^verbatim>\<open>.then(() => editor)\<close>\<close>
  "input_delivered s r =
     (case s of
        Delivering editor \<Rightarrow> (case r of None \<Rightarrow> Settled (Inr editor) | Some e \<Rightarrow> Settled (Inl e))
      | _ \<Rightarrow> s)"

fun join :: "side \<Rightarrow> side \<Rightarrow> (error list + BaseEditor \<times> BaseEditor) option" where
  \<comment> \<open>Modelled from the spec: \<^verbatim>\<open>TPromise.join\<close> lives in \<^verbatim>\<open>vs/base/common/winjs.base\<close>. Only
      joint completion (both sides settled) settles the joined promise; it succeeds with both
      results when both sides succeeded, and a failure on either side fails it with that
      error.\<close>
  "join (Settled (Inr d)) (Settled (Inr m)) = Some (Inr (d, m))"
| "join (Settled (Inl e)) (Settled (Inr m)) = Some (Inl [e])"
| "join (Settled (Inr d)) (Settled (Inl e)) = Some (Inl [e])"
| "join (Settled (Inl e)) (Settled (Inl e')) = Some (Inl [e, e'])"
| "join _ _ = None"

fun then_result :: "returned \<Rightarrow> promise" where
  \<comment> \<open>Modelled from the spec: \<^verbatim>\<open>then\<close> of \<^verbatim>\<open>TPromise\<close> lives in \<^verbatim>\<open>vs/base/common/winjs.base\<close>.
      The promise it returns is fulfilled when the callback returns no promise, follows the
      promise the callback returns, and fails with the exception when the callback throws:
      failures are surfaced to the caller as a failed asynchronous result.\<close>
  "then_result Undefined = Fulfilled"
| "then_result (Promise p) = p"
| "then_result (Thrown e) = Errored [e]"

definition joined :: "creation \<Rightarrow> SideBySideEditor \<Rightarrow> promise \<times> SideBySideEditor" where
  \<comment> \<open>line 106: \<^verbatim>\<open>.then(result => this.onEditorsCreated(result[0], result[1]))\<close>. The
      callback runs when the joined promise succeeds, on the host as it is then; there is
      no error callback, so a failure passes through to the caller.\<close>
  "joined c h =
     (case join (details_side c) (master_side c) of
        None \<Rightarrow> (Waiting c, h)
      | Some (Inl es) \<Rightarrow> (Errored es, h)
      | Some (Inr (d, m)) \<Rightarrow>
          (case onEditorsCreated d m h of
             (None, h1) \<Rightarrow> (then_result Undefined, h1)
           | (Some e, h1) \<Rightarrow> (then_result (Thrown e), h1)))"

definition setNewInput ::
  "(EditorInput \<Rightarrow> EditorDescriptor option) \<Rightarrow> SideBySideEditorInput \<Rightarrow> EditorOptions option \<Rightarrow>
   SideBySideEditor \<Rightarrow> promise \<times> SideBySideEditor" where
  \<comment> \<open>lines 102 to 107\<close>
  "setNewInput getEditor newInput opts h =
     (let (sd, h1) = private_createEditor getEditor (details newInput) (detailsEditorContainer h) None h;
          (sm, h2) = private_createEditor getEditor (master newInput) (masterEditorContainer h1) opts h1
      in joined \<lparr>details_side = sd, master_side = sm\<rparr> h2)"

definition updateInput ::
  "(EditorInput \<Rightarrow> EditorDescriptor option) \<Rightarrow> SideBySideEditorInput option \<Rightarrow>
   SideBySideEditorInput \<Rightarrow> EditorOptions option \<Rightarrow> SideBySideEditor \<Rightarrow> returned \<times> SideBySideEditor" where
  \<comment> \<open>lines 89 to 100; the \<^verbatim>\<open>else\<close> branch has no \<^verbatim>\<open>return\<close>\<close>
  "updateInput getEditor oldInput newInput opts h =
     (if \<not> matches newInput oldInput then
        (case (if oldInput \<noteq> None then disposeEditors h else (None, h)) of
           (Some e, h1) \<Rightarrow> (Thrown e, h1)
         | (None, h1) \<Rightarrow>
             (let (p, h2) = setNewInput getEditor newInput opts (createEditorContainers h1)
              in (Promise p, h2)))
      else
        (case detailsEditor h of
           None \<Rightarrow> (Thrown TypeError, h)
         | Some d \<Rightarrow>
             (let h1 = record_call (ChildSetInput d (details newInput) None) h
              in case masterEditor h1 of
                   None \<Rightarrow> (Thrown TypeError, h1)
                 | Some m \<Rightarrow>
                     (Undefined, record_call (ChildSetInput m (master newInput) opts) h1))))"

definition setInput ::
  "(EditorInput \<Rightarrow> EditorDescriptor option) \<Rightarrow> SideBySideEditorInput \<Rightarrow> EditorOptions option \<Rightarrow>
   SideBySideEditor \<Rightarrow> promise \<times> SideBySideEditor" where
  \<comment> \<open>lines 50 to 54; the promise of \<^verbatim>\<open>super.setInput\<close> is already fulfilled, so the
      callback of \<^verbatim>\<open>then\<close> runs at once\<close>
  "setInput getEditor newInput opts h =
     (let oldInput = input h;
          (r, h1) = updateInput getEditor oldInput newInput opts (super_setInput newInput opts h)
      in (then_result r, h1))"

section \<open>The editor in its event loop\<close>

text \<open>
  The editor with the promises its \<^verbatim>\<open>setInput\<close> calls have returned, in call order. An
  event is a call of the shell, a move of the sash, or the answer of a collaborator to one
  side of the \<open>k\<close>-th \<^verbatim>\<open>setInput\<close> call.
\<close>

record system =
  host :: SideBySideEditor
  promises :: "promise list"

datatype side_id = DetailsSide | MasterSide

datatype event =
    SetInput SideBySideEditorInput "EditorOptions option"
  | ClearInput
  | LayoutTo Dimension
  | PositionChange number
  | InstanceCreated nat side_id "error + BaseEditor"
  | InputDelivered nat side_id "error option"

definition side_event ::
  "nat \<Rightarrow> side_id \<Rightarrow> (side \<Rightarrow> SideBySideEditor \<Rightarrow> side \<times> SideBySideEditor) \<Rightarrow> system \<Rightarrow> system" where
  \<comment> \<open>an answer to one side of call \<open>k\<close>: the side advances by \<open>f\<close>, then the joined promise
      of the call is looked at again\<close>
  "side_event k sd f s =
     (if k < length (promises s) then
        (case promises s ! k of
           Waiting c \<Rightarrow>
             (let (c1, h1) =
                    (case sd of
                       DetailsSide \<Rightarrow>
                         (let (x, h) = f (details_side c) (host s) in (c\<lparr>details_side := x\<rparr>, h))
                     | MasterSide \<Rightarrow>
                         (let (x, h) = f (master_side c) (host s) in (c\<lparr>master_side := x\<rparr>, h)));
                  (p, h2) = joined c1 h1
              in \<lparr>host = h2, promises = (promises s)[k := p]\<rparr>)
         | _ \<Rightarrow> s)
      else s)"

definition step :: "(EditorInput \<Rightarrow> EditorDescriptor option) \<Rightarrow> event \<Rightarrow> system \<Rightarrow> system" where
  \<comment> \<open>one turn of the event loop. An exception of \<^verbatim>\<open>clearInput\<close> or of the sash listener
      (line 139) goes to the caller and the state stays as it was at the throw; the sash
      reports the position that \<^verbatim>\<open>getVerticalSashLeft\<close> returns from then on.\<close>
  "step getEditor ev s =
     (case ev of
        SetInput newInput opts \<Rightarrow>
          (let (p, h) = setInput getEditor newInput opts (host s)
           in \<lparr>host = h, promises = promises s @ [p]\<rparr>)
      | ClearInput \<Rightarrow> s\<lparr>host := snd (clearInput (host s))\<rparr>
      | LayoutTo dim \<Rightarrow> s\<lparr>host := layout dim (host s)\<rparr>
      | PositionChange p \<Rightarrow> s\<lparr>host := snd (dolayout p ((host s)\<lparr>sashLeft := p\<rparr>))\<rparr>
      | InstanceCreated k sd r \<Rightarrow> side_event k sd (\<lambda>x h. instance_created x r h) s
      | InputDelivered k sd r \<Rightarrow> side_event k sd (\<lambda>x h. (input_delivered x r, h)) s)"

fun run :: "(EditorInput \<Rightarrow> EditorDescriptor option) \<Rightarrow> event list \<Rightarrow> system \<Rightarrow> system" where
  "run getEditor [] s = s"
| "run getEditor (ev # evs) s = run getEditor evs (step getEditor ev s)"

fun setInputs ::
  "(EditorInput \<Rightarrow> EditorDescriptor option) \<Rightarrow> (SideBySideEditorInput \<times> EditorOptions option) list \<Rightarrow>
   SideBySideEditor \<Rightarrow> promise list \<times> SideBySideEditor" where
  \<comment> \<open>a sequence of \<^verbatim>\<open>setInput\<close> calls, with the promises they return\<close>
  "setInputs getEditor [] h = ([], h)"
| "setInputs getEditor ((newInput, opts) # rest) h =
     (let (p, h1) = setInput getEditor newInput opts h;
          (ps, h2) = setInputs getEditor rest h1
      in (p # ps, h2))"

fun each_matches ::
  "(EditorInput \<Rightarrow> EditorDescriptor option) \<Rightarrow> (SideBySideEditorInput \<times> EditorOptions option) list \<Rightarrow>
   SideBySideEditor \<Rightarrow> bool" where
  \<comment> \<open>every pair of the sequence matches the input the host has when the call is made\<close>
  "each_matches getEditor [] h = True"
| "each_matches getEditor ((newInput, opts) # rest) h =
     (matches newInput (input h) \<and>
      each_matches getEditor rest (snd (setInput getEditor newInput opts h)))"

fun answers :: "nat \<Rightarrow> event \<Rightarrow> bool" where
  \<comment> \<open>the event is an answer of a collaborator to call \<open>k\<close>\<close>
  "answers k (InstanceCreated j sd r) = (j = k)"
| "answers k (InputDelivered j sd r) = (j = k)"
| "answers k ev = False"

fun creation_call :: "call \<Rightarrow> bool" where
  \<comment> \<open>the two calls of the callback of line 115 on an editor just instantiated\<close>
  "creation_call (Create editor container) = True"
| "creation_call (ChildSetInput editor editorInput opts) = True"
| "creation_call c = False"

fun fails_with_no_handler :: "EditorInput \<Rightarrow> promise \<Rightarrow> bool" where
  \<comment> \<open>the promise has failed with the no-handler error for \<open>i\<close> among its errors, or it
      still waits with one side settled by that error and the other side not yet settled\<close>
  "fails_with_no_handler i (Errored es) = (NoHandler i \<in> set es)"
| "fails_with_no_handler i (Waiting c) =
     (join (details_side c) (master_side c) = None \<and>
      (details_side c = Settled (Inl (NoHandler i)) \<or>
       master_side c = Settled (Inl (NoHandler i))))"
| "fails_with_no_handler i Fulfilled = False"

section \<open>Concrete editors and runs\<close>

text \<open>
  An editor on which \<^verbatim>\<open>create\<close> has run and that the shell has made visible: no input,
  no children, the sash at its initial 220 pixels (line 138).
\<close>

definition created :: SideBySideEditor where
  "created =
     \<lparr>input = None, options = None, visible = True, position = None, dimension = None,
      masterEditor = None, masterEditorContainer = None,
      detailsEditor = None, detailsEditorContainer = None,
      sashLeft = js_int 220, parentChildren = [],
      styles = (\<lambda>_. \<lparr>style_position = None, style_left = None, style_width = None, style_height = None\<rparr>),
      nextElement = 0, calls = []\<rparr>"

definition fresh :: system where
  "fresh = \<lparr>host = created, promises = []\<rparr>"

text \<open>A registry that knows the inputs below 100.\<close>

definition registry :: "EditorInput \<Rightarrow> EditorDescriptor option" where
  "registry i = (if i < 100 then Some (i + 1000) else None)"

text \<open>
  The editor is laid out at 800 by 600 and given the pair (master 1, details 2); the
  instantiation service answers with the editors 12 (details) and 11 (master), and both
  accept their input. \<open>ready\<close> is the editor after that: the pair is committed and shown.
\<close>

definition startup :: "event list" where
  "startup =
     [LayoutTo \<lparr>width = js_int 800, height = js_int 600\<rparr>,
      SetInput \<lparr>master = 1, details = 2\<rparr> (Some 7),
      InstanceCreated 0 DetailsSide (Inr 12), InstanceCreated 0 MasterSide (Inr 11),
      InputDelivered 0 DetailsSide None, InputDelivered 0 MasterSide None]"

definition ready :: SideBySideEditor where
  "ready = host (run registry startup fresh)"

text \<open>
  Two calls race. Call 0 is given the pair (master 1, details 2), then call 1 the pair
  (master 3, details 4), before any answer to call 0. In \<open>newer_first\<close> the children of
  call 1 (editors 14 and 13) are created and committed while call 0 is still in flight;
  in \<open>older_late\<close> the answers to call 0 arrive (editors 12 and 11), the last of them
  after \<open>older_pending\<close>.
\<close>

definition newer_first :: "event list" where
  "newer_first =
     [LayoutTo \<lparr>width = js_int 800, height = js_int 600\<rparr>,
      SetInput \<lparr>master = 1, details = 2\<rparr> (Some 7),
      SetInput \<lparr>master = 3, details = 4\<rparr> (Some 8),
      InstanceCreated 1 DetailsSide (Inr 14), InstanceCreated 1 MasterSide (Inr 13),
      InputDelivered 1 DetailsSide None, InputDelivered 1 MasterSide None]"

definition older_pending :: "event list" where
  "older_pending =
     [InstanceCreated 0 DetailsSide (Inr 12), InstanceCreated 0 MasterSide (Inr 11),
      InputDelivered 0 DetailsSide None]"

definition older_late :: "event list" where
  "older_late = older_pending @ [InputDelivered 0 MasterSide None]"

text \<open>
  The input is cleared while the creation of call 0 is pending, and the creation
  completes afterwards: the editor then has no current input but holds the editors 12 and
  11 in its slots.
\<close>

definition cleared_while_pending :: "event list" where
  "cleared_while_pending =
     [LayoutTo \<lparr>width = js_int 800, height = js_int 600\<rparr>,
      SetInput \<lparr>master = 1, details = 2\<rparr> (Some 7),
      ClearInput,
      InstanceCreated 0 DetailsSide (Inr 12), InstanceCreated 0 MasterSide (Inr 11),
      InputDelivered 0 DetailsSide None, InputDelivered 0 MasterSide None]"

text \<open>
  One side fails. In \<open>call_made\<close> the editor is laid out and given the pair
  (master 1, details 2); in \<open>details_answers\<close> the details editor 12 is created and accepts
  its input; in \<open>master_fails\<close> the instantiation of the master editor then fails.
\<close>

definition call_made :: "event list" where
  "call_made =
     [LayoutTo \<lparr>width = js_int 800, height = js_int 600\<rparr>,
      SetInput \<lparr>master = 1, details = 2\<rparr> (Some 7)]"

definition details_answers :: "event list" where
  "details_answers = [InstanceCreated 0 DetailsSide (Inr 12), InputDelivered 0 DetailsSide None]"

definition master_fails :: "event list" where
  "master_fails =
     call_made @ details_answers @ [InstanceCreated 0 MasterSide (Inl (External 1))]"

text \<open>
  After \<open>startup\<close>, the editor is given a pair whose details input 200 has no registered
  editor; in \<open>master_created\<close> the master side of that call (call 1) succeeds with editor
  13.
\<close>

definition master_created :: "event list" where
  "master_created = [InstanceCreated 1 MasterSide (Inr 13), InputDelivered 1 MasterSide None]"

definition unknown_details :: "event list" where
  "unknown_details = SetInput \<lparr>master = 3, details = 200\<rparr> (Some 8) # master_created"

section \<open>Basic facts\<close>

declare shift_for.simps [simp del]

lemma shift_for_double: "shift_for (2 * a) = (if 2 * a < 2 ^ 53 then 0 else Suc (shift_for a))"
  by (subst shift_for.simps) simp

lemma round_nat_small: "a < 2 ^ 53 \<Longrightarrow> round_nat a = a"
  by (simp add: round_nat_def shift_for.simps)

lemma round_nat_double: "round_nat (2 * a) = 2 * round_nat a"
proof (cases "2 * a < (2::nat) ^ 53")
  case True
  then have "a < 2 ^ 53" by simp
  with True show ?thesis by (simp add: round_nat_small)
next
  case False
  define s where "s = shift_for a"
  define q where "q = a div 2 ^ s"
  define r where "r = a mod 2 ^ s"
  have s': "shift_for (2 * a) = Suc s"
    using False by (simp only: shift_for_double s_def if_False)
  have d: "(2 * a) div 2 ^ Suc s = q"
    by (simp add: q_def)
  have m: "(2 * a) mod 2 ^ Suc s = 2 * r"
    unfolding power_Suc r_def by (rule mult_mod_right [symmetric])
  have c1: "(2 ^ Suc s < 2 * (2 * r)) = (2 ^ s < 2 * r)" by simp
  have c2: "(2 * (2 * r) = 2 ^ Suc s) = (2 * r = 2 ^ s)" by simp
  have l: "round_nat (2 * a) =
      (if 2 ^ s < 2 * r \<or> (2 * r = 2 ^ s \<and> odd q) then (q + 1) * 2 ^ Suc s else q * 2 ^ Suc s)"
    unfolding round_nat_def s' Let_def d m c1 c2 ..
  have r: "round_nat a =
      (if 2 ^ s < 2 * r \<or> (2 * r = 2 ^ s \<and> odd q) then (q + 1) * 2 ^ s else q * 2 ^ s)"
    unfolding round_nat_def Let_def s_def [symmetric] q_def [symmetric] r_def [symmetric] ..
  show ?thesis unfolding l r by simp
qed

lemma round_nat_scaled: "round_nat (a * 2 ^ j) = round_nat a * 2 ^ j"
proof (induction j)
  case 0
  then show ?case by simp
next
  case (Suc j)
  have "a * 2 ^ Suc j = 2 * (a * 2 ^ j)" by simp
  then have "round_nat (a * 2 ^ Suc j) = 2 * round_nat (a * 2 ^ j)"
    by (simp only: round_nat_double)
  with Suc show ?case by simp
qed

lemma round_double_scaled:
  assumes "a \<noteq> 0" and "round_nat (nat \<bar>a\<bar>) = r" and "r < 2 ^ 54" and "j \<le> 2044"
  shows "round_double (a * 2 ^ j) = Finite ((if a < 0 then - int r else int r) * 2 ^ j)"
proof -
  have n: "nat \<bar>a * 2 ^ j\<bar> = nat \<bar>a\<bar> * 2 ^ j"
    by (simp add: abs_mult nat_mult_distrib nat_power_eq)
  have "r * 2 ^ j < 2 ^ 54 * 2 ^ 2044"
  proof -
    have "r * 2 ^ j < 2 ^ 54 * 2 ^ j" using assms(3) by simp
    also have "(2::nat) ^ 54 * 2 ^ j \<le> 2 ^ 54 * 2 ^ 2044"
      by (intro mult_left_mono power_increasing) (use assms(4) in simp_all)
    finally show ?thesis .
  qed
  then have b: "\<not> 2 ^ 2098 \<le> r * 2 ^ j"
    by (simp add: power_add [symmetric])
  show ?thesis
    unfolding round_double_def n round_nat_scaled assms(2) Let_def using b assms(1)
    by (auto simp: mult_less_0_iff zero_less_mult_iff)
qed










lemma large_minus_one:
  "js_sub (js_int 10000000000000000) (js_int 1) = js_int 10000000000000000"
proof -
  have r: "round_nat 9999999999999999 = 10000000000000000"
    by (simp add: round_nat_def shift_for.simps)
  have "js_sub (js_int 10000000000000000) (js_int 1) = round_double (9999999999999999 * 2 ^ 1074)"
    by (simp add: js_sub_def js_int_def)
  also have "\<dots> = js_int 10000000000000000"
    using round_double_scaled [of 9999999999999999 10000000000000000 1074] r
    by (simp add: js_int_def)
  finally show ?thesis .
qed

lemmas model_defs =
  and_then_def record_call_def matches_def super_setInput_def super_clearInput_def
  super_setEditorVisible_def removeChild_def append_new_def set_style_def setEditorVisible_def
  focus_def dolayout_def layout_def disposeEditors_def clearInput_def createEditorContainers_def
  onEditorsCreated_def private_createEditor_def instance_created_def input_delivered_def
  joined_def setNewInput_def updateInput_def setInput_def side_event_def step_def created_def
  fresh_def registry_def

lemma ready_fields:
  "input ready = Some \<lparr>master = 1, details = 2\<rparr>"
  "detailsEditor ready = Some 12"
  "masterEditor ready = Some 11"
  "detailsEditorContainer ready = Some 0"
  "masterEditorContainer ready = Some 1"
  "parentChildren ready = [0, 1]"
  "dimension ready = Some \<lparr>width = js_int 800, height = js_int 600\<rparr>"
  "sashLeft ready = js_int 220"
  "visible ready = True"
  "nextElement ready = 2"
  unfolding ready_def startup_def by (simp_all add: model_defs Let_def)

lemma disposeEditors_calls:
  "detailsEditor h = Some d \<Longrightarrow> masterEditor h = Some m \<Longrightarrow>
   \<exists>e h' rest. disposeEditors h = (e, h') \<and> calls h' = calls h @ Dispose d # Dispose m # rest \<and>
      (\<forall>x. Dispose x \<notin> set rest) \<and> sashLeft h' = sashLeft h \<and> detailsEditor h' = None \<and>
      masterEditor h' = Some m \<and> input h' = input h"
  by (auto simp: model_defs Let_def split: option.splits)

lemma setNewInput_effect:
  "\<exists>p h' cs. setNewInput g new opts h = (p, h') \<and> calls h' = calls h @ cs \<and>
      (\<forall>x. Dispose x \<notin> set cs) \<and> p \<noteq> Fulfilled \<and> sashLeft h' = sashLeft h \<and>
      detailsEditor h' = detailsEditor h \<and> masterEditor h' = masterEditor h \<and> input h' = input h"
  by (auto simp: setNewInput_def private_createEditor_def joined_def record_call_def
           split: option.splits)

lemma createEditorContainers_effect:
  "\<exists>h'. createEditorContainers h = h' \<and>
      calls h' = calls h @ [AppendChild (nextElement h), AppendChild (Suc (nextElement h))] \<and>
      sashLeft h' = sashLeft h \<and>
      detailsEditor h' = detailsEditor h \<and> masterEditor h' = masterEditor h \<and> input h' = input h"
  by (simp add: createEditorContainers_def append_new_def set_style_def record_call_def Let_def)

lemma onEditorsCreated_effect:
  "\<exists>e h' cs. onEditorsCreated d m h = (e, h') \<and> detailsEditor h' = Some d \<and>
      masterEditor h' = Some m \<and>
      calls h' = calls h @ SetVisible m (visible h) # SetVisible d (visible h) # cs \<and>
      (\<forall>x. Dispose x \<notin> set cs) \<and> sashLeft h' = sashLeft h"
  by (auto simp: model_defs Let_def split: option.splits)

lemma joined_sashLeft: "sashLeft (snd (joined c h)) = sashLeft h"
proof (cases "join (details_side c) (master_side c)")
  case None
  then show ?thesis by (simp add: joined_def)
next
  case (Some r)
  show ?thesis
  proof (cases r)
    case (Inl es)
    with Some show ?thesis by (simp add: joined_def)
  next
    case (Inr dm)
    obtain d m where dm: "dm = (d, m)" by (cases dm)
    from onEditorsCreated_effect [of d m h] obtain e h' where
      "onEditorsCreated d m h = (e, h')" "sashLeft h' = sashLeft h" by blast
    with Some Inr dm show ?thesis by (cases e) (simp_all add: joined_def)
  qed
qed

lemma non_matching_setInput:
  assumes "input h = Some old" and "\<not> matches newInput (Some old)"
    and "detailsEditor h = Some d" and "masterEditor h = Some m"
  shows "\<exists>p h' rest. setInput getEditor newInput opts h = (p, h') \<and> p \<noteq> Fulfilled \<and>
           calls h' = calls h @ Dispose d # Dispose m # rest \<and>
           (\<forall>x. Dispose x \<notin> set rest) \<and>
           sashLeft h' = sashLeft h \<and> input h' = Some newInput \<and> detailsEditor h' = None"
proof -
  let ?h0 = "super_setInput newInput opts h"
  have f: "detailsEditor ?h0 = Some d" "masterEditor ?h0 = Some m"
    "calls ?h0 = calls h" "sashLeft ?h0 = sashLeft h" "input ?h0 = Some newInput"
    using assms by (simp_all add: super_setInput_def)
  from disposeEditors_calls [OF f(1,2)] obtain e h1 r1 where
    d: "disposeEditors ?h0 = (e, h1)" "calls h1 = calls h @ Dispose d # Dispose m # r1"
       "\<forall>x. Dispose x \<notin> set r1" "sashLeft h1 = sashLeft h"
       "detailsEditor h1 = None" "input h1 = Some newInput"
    using f(3,4,5) by auto
  show ?thesis
  proof (cases e)
    case (Some err)
    with d assms show ?thesis
      by (simp add: setInput_def updateInput_def)
  next
    case None
    let ?h2 = "createEditorContainers h1"
    let ?ap = "[AppendChild (nextElement h1), AppendChild (Suc (nextElement h1))]"
    from createEditorContainers_effect [of h1] have
      c: "calls ?h2 = calls h1 @ ?ap" "sashLeft ?h2 = sashLeft h1"
         "detailsEditor ?h2 = detailsEditor h1" "input ?h2 = input h1"
      by simp_all
    from setNewInput_effect [of getEditor newInput opts ?h2] obtain p h3 cs where
      n: "setNewInput getEditor newInput opts ?h2 = (p, h3)" "calls h3 = calls ?h2 @ cs"
         "\<forall>x. Dispose x \<notin> set cs" "p \<noteq> Fulfilled" "sashLeft h3 = sashLeft ?h2"
         "detailsEditor h3 = detailsEditor ?h2" "input h3 = input ?h2"
      by blast
    have "setInput getEditor newInput opts h = (p, h3)"
      using assms d None n by (simp add: setInput_def updateInput_def)
    moreover have "calls h3 = calls h @ Dispose d # Dispose m # (r1 @ ?ap @ cs)"
      using d c n by simp
    moreover have "\<forall>x. Dispose x \<notin> set (r1 @ ?ap @ cs)"
      using d n by simp
    moreover have "sashLeft h3 = sashLeft h" "input h3 = Some newInput" "detailsEditor h3 = None"
      using d c n by simp_all
    ultimately show ?thesis using n(4) by blast
  qed
qed

lemma setInput_matching:
  "matches newInput (input h) \<Longrightarrow> detailsEditor h = Some d \<Longrightarrow> masterEditor h = Some m \<Longrightarrow>
   setInput g newInput opts h =
     (Fulfilled,
      h\<lparr>input := Some newInput, options := opts,
        calls := calls h @ [ChildSetInput d (details newInput) None,
                            ChildSetInput m (master newInput) opts]\<rparr>)"
  by (simp add: setInput_def updateInput_def super_setInput_def record_call_def)

lemma setInput_without_input:
  assumes "input h = None"
  shows "\<exists>p h' rest. setInput getEditor newInput opts h = (p, h') \<and>
           calls h' = calls h @ rest \<and> (\<forall>x. Dispose x \<notin> set rest) \<and>
           sashLeft h' = sashLeft h"
proof -
  let ?h0 = "super_setInput newInput opts h"
  let ?h2 = "createEditorContainers ?h0"
  let ?ap = "[AppendChild (nextElement ?h0), AppendChild (Suc (nextElement ?h0))]"
  have f: "calls ?h0 = calls h" "sashLeft ?h0 = sashLeft h"
    by (simp_all add: super_setInput_def)
  from createEditorContainers_effect [of ?h0] have
    c: "calls ?h2 = calls ?h0 @ ?ap" "sashLeft ?h2 = sashLeft ?h0"
    by simp_all
  from setNewInput_effect [of getEditor newInput opts ?h2] obtain p h3 cs where
    n: "setNewInput getEditor newInput opts ?h2 = (p, h3)" "calls h3 = calls ?h2 @ cs"
       "\<forall>x. Dispose x \<notin> set cs" "sashLeft h3 = sashLeft ?h2"
    by blast
  have "setInput getEditor newInput opts h = (p, h3)"
    using assms n by (simp add: setInput_def updateInput_def matches_def)
  moreover have "calls h3 = calls h @ (?ap @ cs)" using f c n by simp
  moreover have "\<forall>x. Dispose x \<notin> set (?ap @ cs)" using n by simp
  moreover have "sashLeft h3 = sashLeft h" using f c n by simp
  ultimately show ?thesis by blast
qed

lemma disposeEditors_commutes:
  "disposeEditors (h\<lparr>input := a, options := b\<rparr>) =
     (fst (disposeEditors h), (snd (disposeEditors h))\<lparr>input := a, options := b\<rparr>)"
  by (cases "detailsEditor h"; cases "masterEditor h"; cases "detailsEditorContainer h";
      cases "masterEditorContainer h")
     (simp_all add: disposeEditors_def and_then_def removeChild_def record_call_def Let_def)

lemma disposeEditors_input: "input (snd (disposeEditors h)) = input h"
  by (cases "detailsEditor h"; cases "masterEditor h"; cases "detailsEditorContainer h";
      cases "masterEditorContainer h")
     (simp_all add: disposeEditors_def and_then_def removeChild_def record_call_def Let_def)


subsection \<open>Answers to a pending call\<close>

lemma settled_stays:
  assumes "answers k ev" and "\<not> (\<exists>c. k < length (promises s) \<and> promises s ! k = Waiting c)"
  shows "step g ev s = s"
  using assms
  by (cases ev) (auto simp: step_def side_event_def split: promise.splits)

lemma settled_stays_run:
  assumes "\<forall>ev\<in>set evs. answers k ev"
    and "\<not> (\<exists>c. k < length (promises s) \<and> promises s ! k = Waiting c)"
  shows "run g evs s = s"
  using assms(1)
proof (induction evs)
  case Nil
  show ?case by simp
next
  case (Cons ev evs)
  then have "answers k ev" by simp
  then have "step g ev s = s" using assms(2) by (rule settled_stays)
  with Cons show ?case by simp
qed

lemma side_advance:
  assumes "f = (\<lambda>x h. instance_created x r h) \<or> f = (\<lambda>x h. (input_delivered x r', h))"
  shows "\<exists>cs. snd (f x h) = h\<lparr>calls := calls h @ cs\<rparr> \<and> (\<forall>c\<in>set cs. creation_call c) \<and>
           (\<forall>e. x = Settled e \<longrightarrow> fst (f x h) = Settled e)"
proof -
  have a: "\<exists>cs. snd (instance_created x r h) = h\<lparr>calls := calls h @ cs\<rparr> \<and>
             (\<forall>c\<in>set cs. creation_call c) \<and>
             (\<forall>e. x = Settled e \<longrightarrow> fst (instance_created x r h) = Settled e)"
  proof (cases x)
    case (Instantiating i co eo)
    show ?thesis
    proof (cases r)
      case (Inl e)
      with Instantiating have "snd (instance_created x r h) = h\<lparr>calls := calls h @ []\<rparr>"
        by (simp add: instance_created_def)
      with Instantiating show ?thesis by (intro exI [of _ "[]"]) simp
    next
      case (Inr ed)
      with Instantiating have "snd (instance_created x r h) =
          h\<lparr>calls := calls h @ [Create ed co, ChildSetInput ed i eo]\<rparr>"
        by (simp add: instance_created_def record_call_def)
      with Instantiating show ?thesis
        by (intro exI [of _ "[Create ed co, ChildSetInput ed i eo]"]) simp
    qed
  next
    case (Delivering ed)
    then have "snd (instance_created x r h) = h\<lparr>calls := calls h @ []\<rparr>"
      by (simp add: instance_created_def)
    with Delivering show ?thesis by (intro exI [of _ "[]"]) simp
  next
    case (Settled e)
    then have "snd (instance_created x r h) = h\<lparr>calls := calls h @ []\<rparr>"
      "fst (instance_created x r h) = Settled e"
      by (simp_all add: instance_created_def)
    with Settled show ?thesis by (intro exI [of _ "[]"]) simp
  qed
  have b: "\<exists>cs. snd (input_delivered x r', h) = h\<lparr>calls := calls h @ cs\<rparr> \<and>
             (\<forall>c\<in>set cs. creation_call c) \<and>
             (\<forall>e. x = Settled e \<longrightarrow> fst (input_delivered x r', h) = Settled e)"
    by (intro exI [of _ "[]"]) (auto simp: input_delivered_def)
  from assms a b show ?thesis by auto
qed

lemma answer_step:
  assumes "k < length (promises s)" and "promises s ! k = Waiting c" and "answers k ev"
  shows "\<exists>c1 cs. step g ev s =
           \<lparr>host = snd (joined c1 ((host s)\<lparr>calls := calls (host s) @ cs\<rparr>)),
            promises = (promises s)[k := fst (joined c1 ((host s)\<lparr>calls := calls (host s) @ cs\<rparr>))]\<rparr> \<and>
           (\<forall>x\<in>set cs. creation_call x) \<and>
           (\<forall>e. details_side c = Settled e \<longrightarrow> details_side c1 = Settled e) \<and>
           (\<forall>e. master_side c = Settled e \<longrightarrow> master_side c1 = Settled e)"
proof -
  obtain f sd where ev: "step g ev s = side_event k sd f s"
    and f: "(\<exists>r. f = (\<lambda>x h. instance_created x r h)) \<or> (\<exists>r'. f = (\<lambda>x h. (input_delivered x r', h)))"
    using assms(3) by (cases ev) (auto simp: step_def)
  from f obtain r r' where
    f': "f = (\<lambda>x h. instance_created x r h) \<or> f = (\<lambda>x h. (input_delivered x r', h))"
    by blast
  show ?thesis
  proof (cases sd)
    case DetailsSide
    from side_advance [OF f', of "details_side c" "host s"] obtain cs where
      cs: "snd (f (details_side c) (host s)) = (host s)\<lparr>calls := calls (host s) @ cs\<rparr>"
        "\<forall>x\<in>set cs. creation_call x"
        "\<forall>e. details_side c = Settled e \<longrightarrow> fst (f (details_side c) (host s)) = Settled e"
      by blast
    let ?c1 = "c\<lparr>details_side := fst (f (details_side c) (host s))\<rparr>"
    have "step g ev s =
           \<lparr>host = snd (joined ?c1 ((host s)\<lparr>calls := calls (host s) @ cs\<rparr>)),
            promises = (promises s)[k := fst (joined ?c1 ((host s)\<lparr>calls := calls (host s) @ cs\<rparr>))]\<rparr>"
      using assms(1,2) DetailsSide cs(1)
      by (simp add: ev side_event_def split_beta)
    with cs(2,3) show ?thesis
      by (intro exI [of _ ?c1] exI [of _ cs]) simp
  next
    case MasterSide
    from side_advance [OF f', of "master_side c" "host s"] obtain cs where
      cs: "snd (f (master_side c) (host s)) = (host s)\<lparr>calls := calls (host s) @ cs\<rparr>"
        "\<forall>x\<in>set cs. creation_call x"
        "\<forall>e. master_side c = Settled e \<longrightarrow> fst (f (master_side c) (host s)) = Settled e"
      by blast
    let ?c1 = "c\<lparr>master_side := fst (f (master_side c) (host s))\<rparr>"
    have "step g ev s =
           \<lparr>host = snd (joined ?c1 ((host s)\<lparr>calls := calls (host s) @ cs\<rparr>)),
            promises = (promises s)[k := fst (joined ?c1 ((host s)\<lparr>calls := calls (host s) @ cs\<rparr>))]\<rparr>"
      using assms(1,2) MasterSide cs(1)
      by (simp add: ev side_event_def split_beta)
    with cs(2,3) show ?thesis
      by (intro exI [of _ ?c1] exI [of _ cs]) simp
  qed
qed

lemma joined_waiting: "fst (joined c h) = Waiting c' \<Longrightarrow> snd (joined c h) = h \<and> c' = c \<and> join (details_side c) (master_side c) = None"
  by (auto simp: joined_def split: option.splits sum.splits prod.splits)

lemma answer_step_waiting:
  assumes "k < length (promises s)" and "promises s ! k = Waiting c" and "answers k ev"
    and "promises (step g ev s) ! k = Waiting c'"
  shows "\<exists>cs. host (step g ev s) = (host s)\<lparr>calls := calls (host s) @ cs\<rparr> \<and>
           (\<forall>x\<in>set cs. creation_call x) \<and>
           length (promises (step g ev s)) = length (promises s)"
proof -
  from answer_step [OF assms(1-3), of g] obtain c1 cs where
    st: "step g ev s =
           \<lparr>host = snd (joined c1 ((host s)\<lparr>calls := calls (host s) @ cs\<rparr>)),
            promises = (promises s)[k := fst (joined c1 ((host s)\<lparr>calls := calls (host s) @ cs\<rparr>))]\<rparr>"
    and cs: "\<forall>x\<in>set cs. creation_call x"
    by blast
  from assms(4) assms(1) st
  have "fst (joined c1 ((host s)\<lparr>calls := calls (host s) @ cs\<rparr>)) = Waiting c'" by simp
  from joined_waiting [OF this] st cs show ?thesis by (intro exI [of _ cs]) simp
qed

lemma answers_while_waiting:
  assumes "k < length (promises s)" and "promises s ! k = Waiting c0"
    and "\<forall>ev\<in>set evs. answers k ev"
    and "promises (run g evs s) ! k = Waiting c"
  shows "\<exists>cs. host (run g evs s) = (host s)\<lparr>calls := calls (host s) @ cs\<rparr> \<and>
           (\<forall>x\<in>set cs. creation_call x) \<and>
           length (promises (run g evs s)) = length (promises s)"
  using assms
proof (induction evs arbitrary: s c0)
  case Nil
  show ?case by (intro exI [of _ "[]"]) simp
next
  case (Cons ev evs)
  let ?s1 = "step g ev s"
  from Cons.prems(3) have a: "answers k ev" and as: "\<forall>ev\<in>set evs. answers k ev" by simp_all
  from answer_step [OF Cons.prems(1,2) a, of g] have len: "length (promises ?s1) = length (promises s)"
    by auto
  show ?case
  proof (cases "\<exists>c1. promises ?s1 ! k = Waiting c1")
    case True
    then obtain c1 where w: "promises ?s1 ! k = Waiting c1" by blast
    from answer_step_waiting [OF Cons.prems(1,2) a w] obtain cs1 where
      h1: "host ?s1 = (host s)\<lparr>calls := calls (host s) @ cs1\<rparr>" "\<forall>x\<in>set cs1. creation_call x"
      by blast
    from Cons.prems(1) len have k1: "k < length (promises ?s1)" by simp
    from Cons.prems(4) have fin: "promises (run g evs ?s1) ! k = Waiting c" by simp
    from Cons.IH [OF k1 w as fin] obtain cs2 where
      h2: "host (run g evs ?s1) = (host ?s1)\<lparr>calls := calls (host ?s1) @ cs2\<rparr>"
        "\<forall>x\<in>set cs2. creation_call x"
        "length (promises (run g evs ?s1)) = length (promises ?s1)"
      by blast
    from h1 h2 len show ?thesis
      by (intro exI [of _ "cs1 @ cs2"]) auto
  next
    case False
    then have "\<not> (\<exists>c. k < length (promises ?s1) \<and> promises ?s1 ! k = Waiting c)" by blast
    from settled_stays_run [OF as this, of g] Cons.prems(4) False
    show ?thesis by simp
  qed
qed


lemma join_failed_side:
  "x = Settled (Inl e) \<or> y = Settled (Inl e) \<Longrightarrow>
   join x y = None \<or> (\<exists>es. join x y = Some (Inl es) \<and> e \<in> set es)"
  by (cases "(x, y)" rule: join.cases) auto

lemma joined_failed_side:
  assumes "details_side c = Settled (Inl e) \<or> master_side c = Settled (Inl e)"
  shows "snd (joined c h) = h \<and>
         ((fst (joined c h) = Waiting c \<and> join (details_side c) (master_side c) = None) \<or>
          (\<exists>es. fst (joined c h) = Errored es \<and> e \<in> set es))"
  using join_failed_side [OF assms] by (auto simp: joined_def)

lemma no_handler_step:
  assumes "k < length (promises s)" and "fails_with_no_handler i (promises s ! k)"
    and "answers k ev"
  shows "\<exists>cs. host (step g ev s) = (host s)\<lparr>calls := calls (host s) @ cs\<rparr> \<and>
           (\<forall>x\<in>set cs. creation_call x) \<and>
           length (promises (step g ev s)) = length (promises s) \<and>
           fails_with_no_handler i (promises (step g ev s) ! k)"
proof (cases "promises s ! k")
  case (Waiting c)
  from answer_step [OF assms(1) Waiting assms(3), of g] obtain c1 cs where
    st: "step g ev s =
           \<lparr>host = snd (joined c1 ((host s)\<lparr>calls := calls (host s) @ cs\<rparr>)),
            promises = (promises s)[k := fst (joined c1 ((host s)\<lparr>calls := calls (host s) @ cs\<rparr>))]\<rparr>"
    and cs: "\<forall>x\<in>set cs. creation_call x"
    and keep: "\<forall>e. details_side c = Settled e \<longrightarrow> details_side c1 = Settled e"
      "\<forall>e. master_side c = Settled e \<longrightarrow> master_side c1 = Settled e"
    by blast
  from assms(2) Waiting keep
  have "details_side c1 = Settled (Inl (NoHandler i)) \<or> master_side c1 = Settled (Inl (NoHandler i))"
    by auto
  from joined_failed_side [OF this, of "(host s)\<lparr>calls := calls (host s) @ cs\<rparr>"] this
  have "snd (joined c1 ((host s)\<lparr>calls := calls (host s) @ cs\<rparr>)) =
          (host s)\<lparr>calls := calls (host s) @ cs\<rparr>"
    "fails_with_no_handler i (fst (joined c1 ((host s)\<lparr>calls := calls (host s) @ cs\<rparr>)))"
    by auto
  with st cs assms(1) show ?thesis by (intro exI [of _ cs]) simp
next
  case Fulfilled
  with assms(2) show ?thesis by simp
next
  case (Errored es)
  then have "\<not> (\<exists>c. k < length (promises s) \<and> promises s ! k = Waiting c)" by simp
  from settled_stays [OF assms(3) this, of g] assms(2)
  show ?thesis by (intro exI [of _ "[]"]) simp
qed

lemma no_handler_run:
  assumes "k < length (promises s)" and "fails_with_no_handler i (promises s ! k)"
    and "\<forall>ev\<in>set evs. answers k ev"
  shows "\<exists>cs. host (run g evs s) = (host s)\<lparr>calls := calls (host s) @ cs\<rparr> \<and>
           (\<forall>x\<in>set cs. creation_call x) \<and>
           fails_with_no_handler i (promises (run g evs s) ! k)"
  using assms
proof (induction evs arbitrary: s)
  case Nil
  then show ?case by (intro exI [of _ "[]"]) simp
next
  case (Cons ev evs)
  let ?s1 = "step g ev s"
  from Cons.prems(3) have a: "answers k ev" and as: "\<forall>ev\<in>set evs. answers k ev" by simp_all
  from no_handler_step [OF Cons.prems(1,2) a, of g] obtain cs1 where
    h1: "host ?s1 = (host s)\<lparr>calls := calls (host s) @ cs1\<rparr>" "\<forall>x\<in>set cs1. creation_call x"
    and l1: "length (promises ?s1) = length (promises s)"
    and d1: "fails_with_no_handler i (promises ?s1 ! k)"
    by blast
  from l1 Cons.prems(1) have k1: "k < length (promises ?s1)" by simp
  from Cons.IH [OF k1 d1 as] obtain cs2 where
    h2: "host (run g evs ?s1) = (host ?s1)\<lparr>calls := calls (host ?s1) @ cs2\<rparr>"
      "\<forall>x\<in>set cs2. creation_call x"
      "fails_with_no_handler i (promises (run g evs ?s1) ! k)"
    by blast
  from h1 h2 show ?case
    by (intro exI [of _ "cs1 @ cs2"]) auto
qed

lemma setNewInput_no_handler:
  assumes "getEditor i = None" and "i = details newInput \<or> i = master newInput"
  shows "fails_with_no_handler i (fst (setNewInput getEditor newInput opts h))"
proof -
  consider (d) "getEditor (details newInput) = None" "i = details newInput"
    | (m) "getEditor (master newInput) = None" "i = master newInput"
    using assms by auto
  then show ?thesis
  proof cases
    case d
    show ?thesis
      by (cases "getEditor (master newInput)")
         (simp_all add: setNewInput_def private_createEditor_def joined_def d)
  next
    case m
    show ?thesis
      by (cases "getEditor (details newInput)")
         (simp_all add: setNewInput_def private_createEditor_def joined_def m)
  qed
qed

lemma setNewInput_host:
  "\<exists>cs. snd (setNewInput g newInput opts h) = h\<lparr>calls := calls h @ cs\<rparr> \<and>
        (\<forall>x\<in>set cs. \<exists>descriptor. x = CreateInstance descriptor)"
proof (cases "g (details newInput)")
  case None
  show ?thesis
  proof (cases "g (master newInput)")
    case n: None
    have "snd (setNewInput g newInput opts h) = h\<lparr>calls := calls h @ []\<rparr>"
      using None n by (simp add: setNewInput_def private_createEditor_def joined_def)
    then show ?thesis by (intro exI [of _ "[]"]) simp
  next
    case (Some b)
    have "snd (setNewInput g newInput opts h) = h\<lparr>calls := calls h @ [CreateInstance b]\<rparr>"
      using None Some
      by (simp add: setNewInput_def private_createEditor_def joined_def record_call_def)
    then show ?thesis by (intro exI [of _ "[CreateInstance b]"]) simp
  qed
next
  case (Some a)
  show ?thesis
  proof (cases "g (master newInput)")
    case None
    have "snd (setNewInput g newInput opts h) = h\<lparr>calls := calls h @ [CreateInstance a]\<rparr>"
      using None Some
      by (simp add: setNewInput_def private_createEditor_def joined_def record_call_def)
    then show ?thesis by (intro exI [of _ "[CreateInstance a]"]) simp
  next
    case s: (Some b)
    have "snd (setNewInput g newInput opts h) =
            h\<lparr>calls := calls h @ [CreateInstance a, CreateInstance b]\<rparr>"
      using Some s
      by (simp add: setNewInput_def private_createEditor_def joined_def record_call_def)
    then show ?thesis by (intro exI [of _ "[CreateInstance a, CreateInstance b]"]) simp
  qed
qed

lemma setInput_no_handler:
  assumes "getEditor i = None" and "i = details newInput \<or> i = master newInput"
    and "\<not> matches newInput (input h)"
    and "input h = None \<or> fst (disposeEditors h) = None"
  shows "fails_with_no_handler i (fst (setInput getEditor newInput opts h)) \<and>
         input (snd (setInput getEditor newInput opts h)) = Some newInput"
proof -
  let ?h0 = "super_setInput newInput opts h"
  define h1 where "h1 = snd (disposeEditors ?h0)"
  define h2 where "h2 = createEditorContainers (if input h \<noteq> None then h1 else ?h0)"
  have u: "updateInput getEditor (input h) newInput opts ?h0 =
      (Promise (fst (setNewInput getEditor newInput opts h2)),
       snd (setNewInput getEditor newInput opts h2))"
  proof (cases "input h")
    case None
    with assms(3) show ?thesis by (simp add: updateInput_def h2_def split_beta)
  next
    case (Some old)
    with assms(4) have "fst (disposeEditors h) = None" by simp
    then have "disposeEditors ?h0 = (None, h1)"
      using disposeEditors_commutes [where h = h and a = "Some newInput" and b = opts]
      by (simp add: h1_def super_setInput_def)
    with assms(3) Some show ?thesis by (simp add: updateInput_def h2_def split_beta)
  qed
  have i1: "input h1 = Some newInput"
    unfolding h1_def disposeEditors_input by (simp add: super_setInput_def)
  have "input h2 = Some newInput"
    using i1 createEditorContainers_effect [of "if input h \<noteq> None then h1 else ?h0"]
    by (simp add: h2_def super_setInput_def)
  with setNewInput_effect [of getEditor newInput opts h2]
  have i3: "input (snd (setNewInput getEditor newInput opts h2)) = Some newInput" by auto
  have "fails_with_no_handler i (fst (setNewInput getEditor newInput opts h2))"
    using assms(1,2) by (rule setNewInput_no_handler)
  with u i3 show ?thesis
    by (simp add: setInput_def)
qed


section \<open>Geometry\<close>




section \<open>Matching inputs: the children are reused\<close>

text \<open>
  C3. For every sequence of \<^verbatim>\<open>setInput\<close> calls on an editor that has both children, in
  which each new pair matches the input current at its call, no child is disposed, none
  is created and no container is created: each call only delivers the new input to the
  existing details child and to the existing master child, its promise is fulfilled, and
  the editor keeps the same two children, the same containers and the same DOM.
\<close>

theorem matching_inputs_reuse_children:
  assumes "each_matches getEditor ins h"
    and "detailsEditor h = Some d" and "masterEditor h = Some m"
  shows "\<exists>h'. setInputs getEditor ins h = (replicate (length ins) Fulfilled, h') \<and>
           calls h' = calls h @ concat (map (\<lambda>(newInput, opts).
                                  [ChildSetInput d (details newInput) None,
                                   ChildSetInput m (master newInput) opts]) ins) \<and>
           detailsEditor h' = Some d \<and> masterEditor h' = Some m \<and>
           detailsEditorContainer h' = detailsEditorContainer h \<and>
           masterEditorContainer h' = masterEditorContainer h \<and>
           parentChildren h' = parentChildren h \<and> nextElement h' = nextElement h \<and>
           styles h' = styles h"
  using assms
proof (induction ins arbitrary: h)
  case Nil
  then show ?case by simp
next
  case (Cons x ins)
  obtain newInput opts where x: "x = (newInput, opts)" by (cases x)
  let ?h1 = "h\<lparr>input := Some newInput, options := opts,
                calls := calls h @ [ChildSetInput d (details newInput) None,
                                    ChildSetInput m (master newInput) opts]\<rparr>"
  from Cons.prems x have m: "matches newInput (input h)" by simp
  have one: "setInput getEditor newInput opts h = (Fulfilled, ?h1)"
    using m Cons.prems(2,3) by (rule setInput_matching)
  from Cons.prems(1) x one have rest: "each_matches getEditor ins ?h1" by simp
  have "detailsEditor ?h1 = Some d" "masterEditor ?h1 = Some m"
    using Cons.prems(2,3) by simp_all
  from Cons.IH [OF rest this] obtain h' where
    h': "setInputs getEditor ins ?h1 = (replicate (length ins) Fulfilled, h')"
      "calls h' = calls ?h1 @ concat (map (\<lambda>(newInput, opts).
                                  [ChildSetInput d (details newInput) None,
                                   ChildSetInput m (master newInput) opts]) ins)"
      "detailsEditor h' = Some d" "masterEditor h' = Some m"
      "detailsEditorContainer h' = detailsEditorContainer ?h1"
      "masterEditorContainer h' = masterEditorContainer ?h1"
      "parentChildren h' = parentChildren ?h1" "nextElement h' = nextElement ?h1"
      "styles h' = styles ?h1"
    by blast
  show ?case
    using h' by (simp add: x one)
qed

theorem matching_inputs_reuse_children_witness:
  "each_matches registry
     [(\<lparr>master = 1, details = 2\<rparr>, Some 9), (\<lparr>master = 1, details = 2\<rparr>, None)] ready \<and>
   detailsEditor ready = Some 12 \<and> masterEditor ready = Some 11 \<and>
   (\<exists>h'. setInputs registry
            [(\<lparr>master = 1, details = 2\<rparr>, Some 9), (\<lparr>master = 1, details = 2\<rparr>, None)] ready =
            ([Fulfilled, Fulfilled], h') \<and>
          calls h' = calls ready @ [ChildSetInput 12 2 None, ChildSetInput 11 1 (Some 9),
                                    ChildSetInput 12 2 None, ChildSetInput 11 1 None] \<and>
          detailsEditor h' = Some 12 \<and> masterEditor h' = Some 11 \<and>
          parentChildren h' = [0, 1])"
proof -
  have m: "matches \<lparr>master = 1, details = 2\<rparr> (input ready)"
    by (simp add: ready_fields matches_def)
  have s: "setInput registry \<lparr>master = 1, details = 2\<rparr> (Some 9) ready =
     (Fulfilled,
      ready\<lparr>input := Some \<lparr>master = 1, details = 2\<rparr>, options := Some 9,
        calls := calls ready @ [ChildSetInput 12 (details \<lparr>master = 1, details = 2\<rparr>) None,
                                ChildSetInput 11 (master \<lparr>master = 1, details = 2\<rparr>) (Some 9)]\<rparr>)"
    using m ready_fields(2) ready_fields(3) by (rule setInput_matching)
  have e: "each_matches registry
     [(\<lparr>master = 1, details = 2\<rparr>, Some 9), (\<lparr>master = 1, details = 2\<rparr>, None)] ready"
    unfolding each_matches.simps s using m by (simp add: matches_def)
  show ?thesis
    using e matching_inputs_reuse_children [OF e ready_fields(2) ready_fields(3)]
    by (auto simp add: ready_fields numeral_2_eq_2)
qed

text \<open>
  C10. On the reuse path (the new pair matches the current input and both children
  exist) the two children are not updated alike: the details child's \<^verbatim>\<open>setInput\<close> is
  called first and without options, the master child's \<^verbatim>\<open>setInput\<close> second and with the
  caller's options.
\<close>

theorem reuse_path_details_first_without_options:
  assumes "matches newInput (input h)"
    and "detailsEditor h = Some d" and "masterEditor h = Some m"
  shows "calls (snd (setInput getEditor newInput opts h)) =
           calls h @ [ChildSetInput d (details newInput) None,
                      ChildSetInput m (master newInput) opts]"
  using assms by (simp add: setInput_matching)

theorem reuse_path_details_first_without_options_witness:
  "matches \<lparr>master = 1, details = 2\<rparr> (input ready) \<and>
   detailsEditor ready = Some 12 \<and> masterEditor ready = Some 11 \<and>
   calls (snd (setInput registry \<lparr>master = 1, details = 2\<rparr> (Some 9) ready)) =
     calls ready @ [ChildSetInput 12 2 None, ChildSetInput 11 1 (Some 9)]"
  using reuse_path_details_first_without_options
          [of "\<lparr>master = 1, details = 2\<rparr>" ready 12 11 registry "Some 9"]
  by (simp add: ready_fields matches_def)

text \<open>
  C7. A failure of a child's own \<^verbatim>\<open>setInput\<close> should make the host's \<^verbatim>\<open>setInput\<close> fail, also
  on the reuse path. On that path \<^verbatim>\<open>updateInput\<close> calls the two children and returns
  nothing (lines 97 and 98): the promises of the children are dropped. Evaluated on the
  ready editor with a matching pair, the host's promise is fulfilled as soon as the two
  calls are made, and nothing of what the children answer later can reach it.
\<close>

theorem reuse_path_drops_child_promises:
  "setInput registry \<lparr>master = 1, details = 2\<rparr> None ready =
     (Fulfilled,
      ready\<lparr>input := Some \<lparr>master = 1, details = 2\<rparr>, options := None,
        calls := calls ready @ [ChildSetInput 12 2 None, ChildSetInput 11 1 None]\<rparr>)"
  using setInput_matching [of "\<lparr>master = 1, details = 2\<rparr>" ready 12 11 registry None]
  by (simp add: ready_fields matches_def)

section \<open>Teardown\<close>

text \<open>
  C4, as the code has it. Take a \<^verbatim>\<open>setInput\<close> call whose new pair does not match the
  current input while both children exist. When there is a current input, the calls
  made by \<^verbatim>\<open>setInput\<close> before it returns start with the disposal of the old details child
  and of the old master child, and dispose nothing else; whatever creates the new
  children comes after them, in the same synchronous step. When there is no current
  input, line 91 skips the teardown and the call disposes nothing. In both cases the
  position of the sash is not changed by the call, nor by the later completion of the
  creation.
\<close>

theorem non_matching_disposes_old_pair_first:
  assumes "\<not> matches newInput (input h)"
    and "detailsEditor h = Some d" and "masterEditor h = Some m"
  shows "\<exists>p h' rest. setInput getEditor newInput opts h = (p, h') \<and>
           calls h' = calls h @ (if input h = None then [] else [Dispose d, Dispose m]) @ rest \<and>
           (\<forall>x. Dispose x \<notin> set rest) \<and>
           sashLeft h' = sashLeft h \<and>
           (\<forall>c. sashLeft (snd (joined c h')) = sashLeft h)"
proof (cases "input h")
  case None
  from setInput_without_input [OF None, of getEditor newInput opts] obtain p h' rest where
    "setInput getEditor newInput opts h = (p, h')" "calls h' = calls h @ rest"
    "\<forall>x. Dispose x \<notin> set rest" "sashLeft h' = sashLeft h"
    by blast
  with None show ?thesis by (simp add: joined_sashLeft)
next
  case (Some old)
  with assms(1) have n: "\<not> matches newInput (Some old)" by simp
  from non_matching_setInput [OF Some n assms(2,3), of getEditor opts] obtain p h' rest where
    "setInput getEditor newInput opts h = (p, h')"
    "calls h' = calls h @ Dispose d # Dispose m # rest"
    "\<forall>x. Dispose x \<notin> set rest" "sashLeft h' = sashLeft h"
    by blast
  with Some show ?thesis by (simp add: joined_sashLeft)
qed

theorem non_matching_disposes_old_pair_first_witness:
  "\<not> matches \<lparr>master = 3, details = 4\<rparr> (input ready) \<and>
   detailsEditor ready = Some 12 \<and> masterEditor ready = Some 11 \<and>
   (\<exists>p h' rest. setInput registry \<lparr>master = 3, details = 4\<rparr> (Some 8) ready = (p, h') \<and>
      calls h' = calls ready @ Dispose 12 # Dispose 11 # rest \<and>
      (\<forall>x. Dispose x \<notin> set rest) \<and>
      sashLeft h' = js_int 220 \<and>
      (\<forall>c. sashLeft (snd (joined c h')) = js_int 220)) \<and>
   calls (snd (setInput registry \<lparr>master = 3, details = 4\<rparr> (Some 8) ready)) =
     calls ready @ [Dispose 12, Dispose 11, RemoveChild 0, RemoveChild 1,
                    AppendChild 2, AppendChild 3, CreateInstance 1004, CreateInstance 1003]"
proof -
  have n: "\<not> matches \<lparr>master = 3, details = 4\<rparr> (input ready)"
    by (simp add: ready_fields matches_def)
  have c: "calls (snd (setInput registry \<lparr>master = 3, details = 4\<rparr> (Some 8) ready)) =
     calls ready @ [Dispose 12, Dispose 11, RemoveChild 0, RemoveChild 1,
                    AppendChild 2, AppendChild 3, CreateInstance 1004, CreateInstance 1003]"
    unfolding ready_def startup_def by (simp add: model_defs Let_def)
  from non_matching_disposes_old_pair_first
         [OF n ready_fields(2) ready_fields(3), of registry "Some 8"]
  show ?thesis using n c by (simp add: ready_fields)
qed

text \<open>
  The claim of C4 on a concrete run. After \<open>cleared_while_pending\<close> the editor has no
  current input and holds the editors 12 and 11; a new pair, which does not match, is
  given: the call creates containers and starts the creation, and disposes neither
  editor.
\<close>

theorem no_input_no_teardown_counterexample:
  "input (host (run registry cleared_while_pending fresh)) = None \<and>
   detailsEditor (host (run registry cleared_while_pending fresh)) = Some 12 \<and>
   masterEditor (host (run registry cleared_while_pending fresh)) = Some 11 \<and>
   \<not> matches \<lparr>master = 3, details = 4\<rparr> (input (host (run registry cleared_while_pending fresh))) \<and>
   calls (host (run registry
            (cleared_while_pending @ [SetInput \<lparr>master = 3, details = 4\<rparr> (Some 8)]) fresh)) =
     calls (host (run registry cleared_while_pending fresh)) @
       [AppendChild 2, AppendChild 3, CreateInstance 1004, CreateInstance 1003] \<and>
   Dispose 12 \<notin> set (calls (host (run registry
            (cleared_while_pending @ [SetInput \<lparr>master = 3, details = 4\<rparr> (Some 8)]) fresh))) \<and>
   Dispose 11 \<notin> set (calls (host (run registry
            (cleared_while_pending @ [SetInput \<lparr>master = 3, details = 4\<rparr> (Some 8)]) fresh)))"
  unfolding cleared_while_pending_def by (simp add: model_defs Let_def)


text \<open>
  C8. After a teardown both child references should be gone. Line 169 assigns
  \<^verbatim>\<open>this.detailsEditor = null\<close> a second time where \<^verbatim>\<open>this.masterEditor\<close> is meant: after
  \<^verbatim>\<open>clearInput\<close> on the ready editor the details slot is empty and the master slot still
  holds editor 11, which has been disposed.
\<close>

theorem teardown_keeps_disposed_master:
  "fst (clearInput ready) = None \<and>
   input (snd (clearInput ready)) = None \<and>
   detailsEditor (snd (clearInput ready)) = None \<and>
   masterEditor (snd (clearInput ready)) = Some 11 \<and>
   Dispose 11 \<in> set (calls (snd (clearInput ready)))"
  unfolding ready_def startup_def by (simp add: model_defs Let_def)

text \<open>
  C9. A second teardown should dispose nothing again. The containers are indeed removed
  once only, but the master reference survives the first teardown (line 169), so
  \<^verbatim>\<open>clearInput\<close> twice on the ready editor disposes the master editor 11 twice.
\<close>

theorem second_teardown_disposes_master_again:
  "fst (and_then (clearInput ready) clearInput) = None \<and>
   calls (snd (and_then (clearInput ready) clearInput)) =
     calls ready @ [Dispose 12, Dispose 11, RemoveChild 0, RemoveChild 1, Dispose 11] \<and>
   count_list (calls (snd (and_then (clearInput ready) clearInput))) (Dispose 11) = 2"
  unfolding ready_def startup_def by (simp add: model_defs Let_def)

section \<open>Creation of the children\<close>

text \<open>
  C1, as the code has it. There is no generation guard: when the last side of a pending
  creation settles with success, its two editors are committed whatever the editor holds
  by then (also the children that a later, non-matching call has committed in the
  meantime). They are stored in the two slots, told the host's visibility, and
  nothing is disposed.
\<close>

theorem late_creation_is_committed:
  assumes "k < length (promises s)" and "promises s ! k = Waiting c"
    and "(details_side c = Settled (Inr d) \<and> master_side c = Delivering m \<and> sd = MasterSide) \<or>
         (details_side c = Delivering d \<and> master_side c = Settled (Inr m) \<and> sd = DetailsSide)"
  shows "detailsEditor (host (step getEditor (InputDelivered k sd None) s)) = Some d \<and>
         masterEditor (host (step getEditor (InputDelivered k sd None) s)) = Some m \<and>
         (\<exists>cs. calls (host (step getEditor (InputDelivered k sd None) s)) =
                  calls (host s) @
                    SetVisible m (visible (host s)) # SetVisible d (visible (host s)) # cs \<and>
               (\<forall>x. Dispose x \<notin> set cs))"
proof -
  from onEditorsCreated_effect [of d m "host s"] obtain e h' cs where
    o: "onEditorsCreated d m (host s) = (e, h')" "detailsEditor h' = Some d"
       "masterEditor h' = Some m"
       "calls h' = calls (host s) @
          SetVisible m (visible (host s)) # SetVisible d (visible (host s)) # cs"
       "\<forall>x. Dispose x \<notin> set cs"
    by blast
  have "host (step getEditor (InputDelivered k sd None) s) = h'"
    using assms o
    by (cases e) (auto simp: step_def side_event_def input_delivered_def joined_def)
  with o show ?thesis by simp
qed

theorem late_creation_is_committed_witness:
  "promises (run registry (newer_first @ older_pending) fresh) ! 0 =
     Waiting \<lparr>details_side = Settled (Inr 12), master_side = Delivering 11\<rparr> \<and>
   detailsEditor (host (run registry (newer_first @ older_pending) fresh)) = Some 14 \<and>
   masterEditor (host (run registry (newer_first @ older_pending) fresh)) = Some 13 \<and>
   detailsEditor (host (step registry (InputDelivered 0 MasterSide None)
                    (run registry (newer_first @ older_pending) fresh))) = Some 12 \<and>
   masterEditor (host (step registry (InputDelivered 0 MasterSide None)
                    (run registry (newer_first @ older_pending) fresh))) = Some 11"
proof -
  define s where "s = run registry (newer_first @ older_pending) fresh"
  have p: "promises s =
      [Waiting \<lparr>details_side = Settled (Inr 12), master_side = Delivering 11\<rparr>, Fulfilled]"
    and e: "detailsEditor (host s) = Some 14" "masterEditor (host s) = Some 13"
    unfolding s_def newer_first_def older_pending_def by (simp_all add: model_defs Let_def)
  have k: "0 < length (promises s)"
    and w: "promises s ! 0 =
      Waiting \<lparr>details_side = Settled (Inr 12), master_side = Delivering 11\<rparr>"
    using p by simp_all
  have c: "(details_side \<lparr>details_side = Settled (Inr 12), master_side = Delivering 11\<rparr> =
              Settled (Inr 12) \<and>
            master_side \<lparr>details_side = Settled (Inr 12), master_side = Delivering 11\<rparr> =
              Delivering 11 \<and> MasterSide = MasterSide) \<or>
           (details_side \<lparr>details_side = Settled (Inr 12), master_side = Delivering 11\<rparr> =
              Delivering 12 \<and>
            master_side \<lparr>details_side = Settled (Inr 12), master_side = Delivering 11\<rparr> =
              Settled (Inr 11) \<and> MasterSide = DetailsSide)"
    by simp
  from late_creation_is_committed [OF k w c, of registry] w e
  show ?thesis unfolding s_def [symmetric] by blast
qed

text \<open>
  The race of C1 on concrete calls. After \<open>newer_first\<close> the children 14 and 13 of the
  newer call are committed while the older call still waits; after \<open>older_late\<close> the
  older call's children 12 and 11 sit in the slots, have been shown and focused, and have
  never been disposed.
\<close>

theorem stale_creation_is_committed_counterexample:
  "promises (run registry newer_first fresh) =
     [Waiting \<lparr>details_side = Instantiating 2 (Some 0) None,
               master_side = Instantiating 1 (Some 1) (Some 7)\<rparr>, Fulfilled] \<and>
   detailsEditor (host (run registry newer_first fresh)) = Some 14 \<and>
   masterEditor (host (run registry newer_first fresh)) = Some 13 \<and>
   promises (run registry (newer_first @ older_late) fresh) = [Fulfilled, Fulfilled] \<and>
   detailsEditor (host (run registry (newer_first @ older_late) fresh)) = Some 12 \<and>
   masterEditor (host (run registry (newer_first @ older_late) fresh)) = Some 11 \<and>
   SetVisible 12 True \<in> set (calls (host (run registry (newer_first @ older_late) fresh))) \<and>
   SetVisible 11 True \<in> set (calls (host (run registry (newer_first @ older_late) fresh))) \<and>
   Focus 11 \<in> set (calls (host (run registry (newer_first @ older_late) fresh))) \<and>
   Dispose 12 \<notin> set (calls (host (run registry (newer_first @ older_late) fresh))) \<and>
   Dispose 11 \<notin> set (calls (host (run registry (newer_first @ older_late) fresh)))"
  unfolding newer_first_def older_late_def older_pending_def by (simp add: model_defs Let_def)

text \<open>
  C5, as the code has it. The synchronous start of a creation (\<^verbatim>\<open>setNewInput\<close>) changes
  the editor in one way only: the instantiation service is asked for the editors that
  have a descriptor. Then take a call whose creation is pending (from the moment
  \<^verbatim>\<open>setInput\<close> has returned its promise), any answers of the collaborators to that call
  after which it still waits, and then the answer that settles its second side with one
  side failing and the other succeeding (the failure may come from the instantiation or
  from the new editor's own \<^verbatim>\<open>setInput\<close>, and either side may settle last). The promise of
  the call then fails with the failing side's error. Over all these answers the editor
  has changed in one way only: the calls that create an instantiated editor in its
  container and give it its input were made. The slots, the visibility and the layout
  are untouched, so no pair is committed or shown, and no editor is disposed: the one
  created on the other side stays.
\<close>

theorem partial_failure_leaves_created_child:
  assumes "k < length (promises s)" and "promises s ! k = Waiting c0"
    and "\<forall>ev\<in>set evs. answers k ev"
    and "promises (run getEditor evs s) ! k = Waiting c"
    and "(details_side c = Settled (Inr d) \<and> master_side c = Instantiating i co eo \<and>
            ev = InstanceCreated k MasterSide (Inl e)) \<or>
         (details_side c = Settled (Inr d) \<and> master_side c = Delivering m \<and>
            ev = InputDelivered k MasterSide (Some e)) \<or>
         (details_side c = Settled (Inl e) \<and> master_side c = Delivering m \<and>
            ev = InputDelivered k MasterSide None) \<or>
         (master_side c = Settled (Inr m) \<and> details_side c = Instantiating i co eo \<and>
            ev = InstanceCreated k DetailsSide (Inl e)) \<or>
         (master_side c = Settled (Inr m) \<and> details_side c = Delivering d \<and>
            ev = InputDelivered k DetailsSide (Some e)) \<or>
         (master_side c = Settled (Inl e) \<and> details_side c = Delivering d \<and>
            ev = InputDelivered k DetailsSide None)"
  shows "(\<exists>cs. snd (setNewInput getEditor newInput opts h) = h\<lparr>calls := calls h @ cs\<rparr> \<and>
               (\<forall>x\<in>set cs. \<exists>descriptor. x = CreateInstance descriptor)) \<and>
         (\<exists>cs. host (step getEditor ev (run getEditor evs s)) =
                 (host s)\<lparr>calls := calls (host s) @ cs\<rparr> \<and>
              (\<forall>x\<in>set cs. creation_call x) \<and>
              promises (step getEditor ev (run getEditor evs s)) ! k = Errored [e])"
proof -
  let ?s2 = "run getEditor evs s"
  from answers_while_waiting [OF assms(1-4)] obtain cs where
    h: "host ?s2 = (host s)\<lparr>calls := calls (host s) @ cs\<rparr>" "\<forall>x\<in>set cs. creation_call x"
    and len: "length (promises ?s2) = length (promises s)"
    by blast
  from len assms(1) have k: "k < length (promises ?s2)" by simp
  have "step getEditor ev ?s2 = ?s2\<lparr>promises := (promises ?s2)[k := Errored [e]]\<rparr>"
    using k assms(4,5)
    by (auto simp: step_def side_event_def instance_created_def input_delivered_def joined_def)
  with h k have "\<exists>cs. host (step getEditor ev ?s2) = (host s)\<lparr>calls := calls (host s) @ cs\<rparr> \<and>
              (\<forall>x\<in>set cs. creation_call x) \<and>
              promises (step getEditor ev ?s2) ! k = Errored [e]"
    by (intro exI [of _ cs]) simp
  with setNewInput_host [of getEditor newInput opts h] show ?thesis by blast
qed

theorem partial_failure_leaves_created_child_witness:
  "promises (run registry call_made fresh) ! 0 =
     Waiting \<lparr>details_side = Instantiating 2 (Some 0) None,
              master_side = Instantiating 1 (Some 1) (Some 7)\<rparr> \<and>
   answers 0 (InstanceCreated 0 DetailsSide (Inr 12)) \<and>
   answers 0 (InputDelivered 0 DetailsSide None) \<and>
   promises (run registry details_answers (run registry call_made fresh)) ! 0 =
     Waiting \<lparr>details_side = Settled (Inr 12),
              master_side = Instantiating 1 (Some 1) (Some 7)\<rparr> \<and>
   (\<exists>cs. host (step registry (InstanceCreated 0 MasterSide (Inl (External 1)))
                (run registry details_answers (run registry call_made fresh))) =
           (host (run registry call_made fresh))
             \<lparr>calls := calls (host (run registry call_made fresh)) @ cs\<rparr> \<and>
         cs = [Create 12 (Some 0), ChildSetInput 12 2 None]) \<and>
   promises (step registry (InstanceCreated 0 MasterSide (Inl (External 1)))
              (run registry details_answers (run registry call_made fresh))) ! 0 =
     Errored [External 1]"
proof -
  define s where "s = run registry call_made fresh"
  have p: "promises s =
      [Waiting \<lparr>details_side = Instantiating 2 (Some 0) None,
                master_side = Instantiating 1 (Some 1) (Some 7)\<rparr>]"
    unfolding s_def call_made_def by (simp add: model_defs Let_def)
  have q: "promises (run registry details_answers s) =
      [Waiting \<lparr>details_side = Settled (Inr 12),
                master_side = Instantiating 1 (Some 1) (Some 7)\<rparr>]"
    and c: "calls (host (run registry details_answers s)) =
      calls (host s) @ [Create 12 (Some 0), ChildSetInput 12 2 None]"
    unfolding s_def call_made_def details_answers_def by (simp_all add: model_defs Let_def)
  have k: "0 < length (promises s)"
    and w0: "promises s ! 0 =
      Waiting \<lparr>details_side = Instantiating 2 (Some 0) None,
               master_side = Instantiating 1 (Some 1) (Some 7)\<rparr>"
    using p by simp_all
  have w: "promises (run registry details_answers s) ! 0 =
      Waiting \<lparr>details_side = Settled (Inr 12),
               master_side = Instantiating 1 (Some 1) (Some 7)\<rparr>"
    using q by simp
  have a: "\<forall>ev\<in>set details_answers. answers 0 ev"
    by (simp add: details_answers_def)
  from partial_failure_leaves_created_child
         [where k = 0 and s = s and evs = details_answers and getEditor = registry
            and d = 12 and i = 1 and co = "Some 1" and eo = "Some 7"
            and ev = "InstanceCreated 0 MasterSide (Inl (External 1))" and e = "External 1"
            and newInput = "\<lparr>master = 1, details = 2\<rparr>" and opts = "Some 7" and h = created,
          OF k w0 a w, THEN conjunct2]
  obtain cs where r: "host (step registry (InstanceCreated 0 MasterSide (Inl (External 1)))
                (run registry details_answers s)) = (host s)\<lparr>calls := calls (host s) @ cs\<rparr>"
    "promises (step registry (InstanceCreated 0 MasterSide (Inl (External 1)))
                (run registry details_answers s)) ! 0 = Errored [External 1]"
    by auto
  have "calls (host (step registry (InstanceCreated 0 MasterSide (Inl (External 1)))
                (run registry details_answers s))) =
        calls (host s) @ [Create 12 (Some 0), ChildSetInput 12 2 None]"
    using q c by (simp add: step_def side_event_def instance_created_def joined_def)
  with r(1) have "cs = [Create 12 (Some 0), ChildSetInput 12 2 None]" by simp
  with r w0 w show ?thesis unfolding s_def [symmetric] by simp
qed

text \<open>
  The partial failure of C5 on a concrete call: the details editor 12 is created in its
  container and receives its input, the master side fails, the call fails with the
  master side's error, and editor 12 is never disposed.
\<close>

theorem partial_failure_disposes_nothing_counterexample:
  "promises (run registry master_fails fresh) = [Errored [External 1]] \<and>
   Create 12 (Some 0) \<in> set (calls (host (run registry master_fails fresh))) \<and>
   ChildSetInput 12 2 None \<in> set (calls (host (run registry master_fails fresh))) \<and>
   Dispose 12 \<notin> set (calls (host (run registry master_fails fresh)))"
  unfolding master_fails_def call_made_def details_answers_def
  by (simp add: model_defs Let_def)

text \<open>
  C6, as the code has it. Let \<open>i\<close> be an input without a registered editor, on either
  side of a pair that does not match the current input, and let the teardown of the old
  pair not throw. The creation of that side fails with the no-handler error instead of
  yielding an editor. The promise that \<^verbatim>\<open>setInput\<close> returns is never fulfilled, whatever
  the collaborators answer to the call: while it waits, the side of \<open>i\<close> is settled with
  the error and the other side is still open, and once it is settled it has failed with
  the error among its errors. The call commits no children: the start of the creation
  only asks the instantiation service for the other side's editor, and the answers leave
  the editor as \<^verbatim>\<open>setInput\<close> left it, but for the calls that create that editor. The editor
  is not in its prior committed state, though: \<^verbatim>\<open>setInput\<close> has stored the new pair as the
  current input and, when a pair was shown, has disposed the two old children and
  emptied the details slot before the lookup.
\<close>

theorem no_handler_fails_after_teardown:
  assumes "getEditor i = None" and "i = details newInput \<or> i = master newInput"
    and "\<not> matches newInput (input (host s))"
    and "input (host s) = None \<or> fst (disposeEditors (host s)) = None"
    and "\<forall>ev\<in>set evs. answers (length (promises s)) ev"
  shows "private_createEditor getEditor i container copts h0 = (Settled (Inl (NoHandler i)), h0) \<and>
    (\<exists>cs. snd (setNewInput getEditor newInput opts h0) = h0\<lparr>calls := calls h0 @ cs\<rparr> \<and>
          (\<forall>x\<in>set cs. \<exists>descriptor. x = CreateInstance descriptor)) \<and>
    (\<exists>cs. fails_with_no_handler i
             (promises (run getEditor evs (step getEditor (SetInput newInput opts) s)) !
                length (promises s)) \<and>
           host (run getEditor evs (step getEditor (SetInput newInput opts) s)) =
             (host (step getEditor (SetInput newInput opts) s))
               \<lparr>calls := calls (host (step getEditor (SetInput newInput opts) s)) @ cs\<rparr> \<and>
           (\<forall>x\<in>set cs. creation_call x)) \<and>
    input (host (step getEditor (SetInput newInput opts) s)) = Some newInput \<and>
    (\<forall>old d m. input (host s) = Some old \<and> detailsEditor (host s) = Some d \<and>
                masterEditor (host s) = Some m \<longrightarrow>
       detailsEditor (host (step getEditor (SetInput newInput opts) s)) = None \<and>
       (\<exists>rest. calls (host (step getEditor (SetInput newInput opts) s)) =
                  calls (host s) @ Dispose d # Dispose m # rest))"
proof -
  let ?s1 = "step getEditor (SetInput newInput opts) s"
  let ?k = "length (promises s)"
  have s1: "?s1 = \<lparr>host = snd (setInput getEditor newInput opts (host s)),
                   promises = promises s @ [fst (setInput getEditor newInput opts (host s))]\<rparr>"
    by (simp add: step_def split_beta)
  have a: "private_createEditor getEditor i container copts h0 = (Settled (Inl (NoHandler i)), h0)"
    using assms(1) by (simp add: private_createEditor_def)
  from setInput_no_handler
         [where getEditor = getEditor and i = i and newInput = newInput and h = "host s"
            and opts = opts, OF assms(1-4)]
  have f: "fails_with_no_handler i (fst (setInput getEditor newInput opts (host s)))"
    and i: "input (snd (setInput getEditor newInput opts (host s))) = Some newInput"
    by simp_all
  have k: "?k < length (promises ?s1)" and p: "fails_with_no_handler i (promises ?s1 ! ?k)"
    using f by (simp_all add: s1)
  from no_handler_run [OF k p assms(5), of getEditor]
  have b: "\<exists>cs. fails_with_no_handler i (promises (run getEditor evs ?s1) ! ?k) \<and>
           host (run getEditor evs ?s1) = (host ?s1)\<lparr>calls := calls (host ?s1) @ cs\<rparr> \<and>
           (\<forall>x\<in>set cs. creation_call x)"
    by blast
  have c: "input (host ?s1) = Some newInput" using i by (simp add: s1)
  have d: "\<forall>old d m. input (host s) = Some old \<and> detailsEditor (host s) = Some d \<and>
                masterEditor (host s) = Some m \<longrightarrow>
       detailsEditor (host ?s1) = None \<and>
       (\<exists>rest. calls (host ?s1) = calls (host s) @ Dispose d # Dispose m # rest)"
  proof (intro allI impI)
    fix old d m
    assume h: "input (host s) = Some old \<and> detailsEditor (host s) = Some d \<and>
                masterEditor (host s) = Some m"
    with assms(3) have n: "\<not> matches newInput (Some old)" by simp
    from h have "input (host s) = Some old" "detailsEditor (host s) = Some d"
      "masterEditor (host s) = Some m" by simp_all
    from non_matching_setInput [OF this(1) n this(2,3), of getEditor opts]
    show "detailsEditor (host ?s1) = None \<and>
       (\<exists>rest. calls (host ?s1) = calls (host s) @ Dispose d # Dispose m # rest)"
      by (auto simp: s1)
  qed
  from a setNewInput_host [of getEditor newInput opts h0] b c d show ?thesis by blast
qed

theorem no_handler_fails_after_teardown_witness:
  "registry 200 = None \<and>
   \<not> matches \<lparr>master = 3, details = 200\<rparr> (input (host (run registry startup fresh))) \<and>
   fst (disposeEditors (host (run registry startup fresh))) = None \<and>
   length (promises (run registry startup fresh)) = 1 \<and>
   answers 1 (InstanceCreated 1 MasterSide (Inr 13)) \<and>
   answers 1 (InputDelivered 1 MasterSide None) \<and>
   fails_with_no_handler 200
     (promises (run registry master_created
        (step registry (SetInput \<lparr>master = 3, details = 200\<rparr> (Some 8))
           (run registry startup fresh))) ! 1) \<and>
   promises (run registry master_created
        (step registry (SetInput \<lparr>master = 3, details = 200\<rparr> (Some 8))
           (run registry startup fresh))) ! 1 = Errored [NoHandler 200] \<and>
   detailsEditor (host (step registry (SetInput \<lparr>master = 3, details = 200\<rparr> (Some 8))
           (run registry startup fresh))) = None"
proof -
  define s where "s = run registry startup fresh"
  have g: "registry 200 = None" by (simp add: registry_def)
  have sd: "200 = details \<lparr>master = 3, details = 200\<rparr> \<or> 200 = master \<lparr>master = 3, details = 200\<rparr>"
    by simp
  have hs: "host s = ready" by (simp add: s_def ready_def)
  have n: "\<not> matches \<lparr>master = 3, details = 200\<rparr> (input (host s))"
    by (simp add: hs ready_fields matches_def)
  have t: "fst (disposeEditors (host s)) = None"
    unfolding s_def startup_def by (simp add: model_defs Let_def)
  have l: "length (promises s) = 1"
    unfolding s_def startup_def by (simp add: model_defs Let_def)
  have a: "\<forall>ev\<in>set master_created. answers (length (promises s)) ev"
    by (simp add: master_created_def l)
  have e: "promises (run registry master_created
        (step registry (SetInput \<lparr>master = 3, details = 200\<rparr> (Some 8)) s)) ! 1 =
      Errored [NoHandler 200]"
    unfolding s_def startup_def master_created_def by (simp add: model_defs Let_def)
  from no_handler_fails_after_teardown
         [where getEditor = registry and i = 200
            and newInput = "\<lparr>master = 3, details = 200\<rparr>" and s = s and evs = master_created
            and opts = "Some 8" and container = None and copts = None and ?h0.0 = ready,
          OF g sd n disjI2 [OF t] a]
  have r: "fails_with_no_handler 200
     (promises (run registry master_created
        (step registry (SetInput \<lparr>master = 3, details = 200\<rparr> (Some 8)) s)) ! 1)"
    "detailsEditor (host (step registry (SetInput \<lparr>master = 3, details = 200\<rparr> (Some 8)) s)) = None"
    using l hs ready_fields(1,2,3) by auto
  from g n t l e r show ?thesis unfolding s_def [symmetric] by simp
qed


text \<open>
  The claim of C6 on a concrete call: the ready editor shows the pair of editors 12 and
  11; it is given a pair whose details input 200 has no registered editor. The call
  fails with the no-handler error, and the editor is not as it was: the old children
  have been disposed, their containers replaced, the details slot is empty and the
  current input is the new pair.
\<close>

theorem no_handler_loses_previous_pair_counterexample:
  "detailsEditor (host (run registry startup fresh)) = Some 12 \<and>
   masterEditor (host (run registry startup fresh)) = Some 11 \<and>
   input (host (run registry startup fresh)) = Some \<lparr>master = 1, details = 2\<rparr> \<and>
   registry 200 = None \<and>
   promises (run registry (startup @ unknown_details) fresh) =
     [Fulfilled, Errored [NoHandler 200]] \<and>
   detailsEditor (host (run registry (startup @ unknown_details) fresh)) = None \<and>
   input (host (run registry (startup @ unknown_details) fresh)) =
     Some \<lparr>master = 3, details = 200\<rparr> \<and>
   Dispose 12 \<in> set (calls (host (run registry (startup @ unknown_details) fresh))) \<and>
   Dispose 11 \<in> set (calls (host (run registry (startup @ unknown_details) fresh))) \<and>
   parentChildren (host (run registry (startup @ unknown_details) fresh)) = [2, 3]"
  unfolding startup_def unknown_details_def master_created_def
  by (simp add: model_defs Let_def)

end
